theory Spec2Isabelle
  imports Complex_Main
begin

section \<open>Errors\<close>

text \<open>
  The script \<^verbatim>\<open>scripts/data_collection.py\<close> has no exception handler of its own: every
  exception raised inside a function leaves it. An exception is the \<open>Inl\<close> side of a
  result.
  \<^item> \<open>AttributeError\<close>: an attribute is read on a value that lacks it (a column of a
    frame without columns, \<^verbatim>\<open>.lower()\<close> on a float).
  \<^item> \<open>UnboundLocalError\<close>: a local variable is read before any assignment.
  \<^item> \<open>DateParseError\<close>: \<^verbatim>\<open>pd.to_datetime\<close> is given something that is no calendar date.
  \<^item> \<open>OutOfBoundsDatetime\<close>: a date outside the range of a nanosecond timestamp
    (pandas reports it as OutOfBoundsDatetime or OverflowError).
  \<^item> \<open>OutOfBoundsTimedelta\<close>: a number of days outside the range of a nanosecond time
    delta (pandas reports it as OutOfBoundsTimedelta or OverflowError).
  \<^item> \<open>IndexError\<close>: \<^verbatim>\<open>.iloc[0]\<close> on a frame without rows.
  \<^item> \<open>External\<close>: raised by a collaborator (catalog, asset store, geodesy, file system).
\<close>

datatype error =
    AttributeError
  | UnboundLocalError
  | DateParseError
  | OutOfBoundsDatetime
  | OutOfBoundsTimedelta
  | IndexError
  | External string

definition ebind :: "error + 'a \<Rightarrow> ('a \<Rightarrow> error + 'b) \<Rightarrow> error + 'b" where
  "ebind m f = (case m of Inl e \<Rightarrow> Inl e | Inr x \<Rightarrow> f x)"

section \<open>Calendar dates\<close>

text \<open>
  A calendar date in the proleptic Gregorian calendar, as \<^verbatim>\<open>datetime.date\<close> and a
  \<^verbatim>\<open>pd.Timestamp\<close> at midnight have it. The record does not force validity: a
  string such as \<^verbatim>\<open>2022-02-30\<close> is an input too, and \<open>to_datetime\<close> refuses it.
\<close>

record date =
  year :: nat
  month :: nat
  day :: nat

definition is_leap :: "nat \<Rightarrow> bool" where
  "is_leap y \<longleftrightarrow> y mod 4 = 0 \<and> (y mod 100 \<noteq> 0 \<or> y mod 400 = 0)"

definition days_in_month :: "nat \<Rightarrow> nat \<Rightarrow> nat" where
  "days_in_month y m =
     (if m = 2 then (if is_leap y then 29 else 28)
      else if m = 4 \<or> m = 6 \<or> m = 9 \<or> m = 11 then 30
      else 31)"

definition valid_date :: "date \<Rightarrow> bool" where
  "valid_date d \<longleftrightarrow>
     1 \<le> year d \<and> year d \<le> 9999 \<and> 1 \<le> month d \<and> month d \<le> 12 \<and>
     1 \<le> day d \<and> day d \<le> days_in_month (year d) (month d)"

text \<open>
  The day number of a date (\<^verbatim>\<open>date.toordinal()\<close>: 0001-01-01 is day 1). A difference
  of two timestamps at midnight is the difference of their day numbers, in days.
\<close>

definition days_before_year :: "nat \<Rightarrow> int" where
  "days_before_year y =
     (let p = int y - 1 in 365 * p + p div 4 - p div 100 + p div 400)"

definition days_before_month :: "nat \<Rightarrow> nat \<Rightarrow> int" where
  "days_before_month y m =
     int ([0, 31, 59, 90, 120, 151, 181, 212, 243, 273, 304, 334] ! (m - 1))
       + (if 2 < m \<and> is_leap y then 1 else 0)"

definition toordinal :: "date \<Rightarrow> int" where
  "toordinal d = days_before_year (year d) + days_before_month (year d) (month d) + int (day d)"

text \<open>One day back and one day forward, across month and year ends.\<close>

definition prev_day :: "date \<Rightarrow> date" where
  "prev_day d =
     (if 1 < day d then d\<lparr>day := day d - 1\<rparr>
      else if 1 < month d
        then d\<lparr>month := month d - 1, day := days_in_month (year d) (month d - 1)\<rparr>
      else \<lparr>year = year d - 1, month = 12, day = 31\<rparr>)"

definition next_day :: "date \<Rightarrow> date" where
  "next_day d =
     (if day d < days_in_month (year d) (month d) then d\<lparr>day := day d + 1\<rparr>
      else if month d < 12 then d\<lparr>month := month d + 1, day := 1\<rparr>
      else \<lparr>year = year d + 1, month = 1, day = 1\<rparr>)"

text \<open>\<^verbatim>\<open>timestamp - timedelta(days=w)\<close> on the calendar; a negative \<open>w\<close> moves forward.\<close>

fun days_back :: "nat \<Rightarrow> date \<Rightarrow> date" where
  "days_back n d = (if n = 0 then d else days_back (n - 1) (prev_day d))"

fun days_forward :: "nat \<Rightarrow> date \<Rightarrow> date" where
  "days_forward n d = (if n = 0 then d else days_forward (n - 1) (next_day d))"

declare days_back.simps [simp del] days_forward.simps [simp del]

definition minus_days :: "date \<Rightarrow> int \<Rightarrow> date" where
  "minus_days d w = (if 0 \<le> w then days_back (nat w) d else days_forward (nat (- w)) d)"

text \<open>
  The dates a nanosecond timestamp holds at midnight: 1677-09-22 to 2262-04-11
  (\<^verbatim>\<open>pd.Timestamp.min\<close> is 1677-09-21 00:12:43.145224193).
\<close>

definition ts_min :: int where
  "ts_min = toordinal \<lparr>year = 1677, month = 9, day = 22\<rparr>"

definition ts_max :: int where
  "ts_max = toordinal \<lparr>year = 2262, month = 4, day = 11\<rparr>"

definition in_bounds :: "int \<Rightarrow> bool" where
  "in_bounds n \<longleftrightarrow> ts_min \<le> n \<and> n \<le> ts_max"

definition to_datetime :: "date \<Rightarrow> error + date" where
  "to_datetime d =
     (if \<not> valid_date d then Inl DateParseError
      else if \<not> in_bounds (toordinal d) then Inl OutOfBoundsDatetime
      else Inr d)"

text \<open>
  \<^verbatim>\<open>timestamp - timedelta(days=w)\<close>: the timestamp adds the negated delta, which it first
  converts to nanoseconds. A delta of more than 106751 whole days, either way, is beyond
  the 64-bit count of nanoseconds (\<^verbatim>\<open>pd.Timedelta.max\<close> is 106751 days 23:47:16.854775807)
  and raises; so does a result outside the range of a timestamp.
\<close>

definition td_max_days :: int where
  "td_max_days = 106751"

definition timestamp_minus_days :: "date \<Rightarrow> int \<Rightarrow> error + date" where
  "timestamp_minus_days t w =
     (if td_max_days < \<bar>w\<bar> then Inl OutOfBoundsTimedelta
      else if \<not> in_bounds (toordinal t - w) then Inl OutOfBoundsDatetime
      else Inr (minus_days t w))"

section \<open>Formatting dates\<close>

definition digit_char :: "nat \<Rightarrow> char" where
  "digit_char n = ''0123456789'' ! n"

fun str_of_nat :: "nat \<Rightarrow> string" where
  "str_of_nat n =
     (if n < 10 then [digit_char n] else str_of_nat (n div 10) @ [digit_char (n mod 10)])"

declare str_of_nat.simps [simp del]

definition zero_pad :: "nat \<Rightarrow> nat \<Rightarrow> string" where
  "zero_pad w n = (let s = str_of_nat n in replicate (w - length s) (CHR ''0'') @ s)"

text \<open>
  \<^verbatim>\<open>strftime\<close> for the directives the script uses (\<^verbatim>\<open>%Y\<close>, \<^verbatim>\<open>%m\<close>, \<^verbatim>\<open>%d\<close>); every
  other character of the format is copied.
\<close>

definition directive :: "char \<Rightarrow> date \<Rightarrow> string" where
  "directive c d =
     (if c = CHR ''Y'' then zero_pad 4 (year d)
      else if c = CHR ''m'' then zero_pad 2 (month d)
      else if c = CHR ''d'' then zero_pad 2 (day d)
      else [CHR ''%'', c])"

fun strftime :: "string \<Rightarrow> date \<Rightarrow> string" where
  "strftime (a # b # cs) d =
     (if a = CHR ''%'' then directive b d @ strftime cs d else a # strftime (b # cs) d)"
| "strftime cs d = cs"

text \<open>\<^verbatim>\<open>date.isoformat()\<close>: the ISO-8601 calendar date \<^verbatim>\<open>YYYY-MM-DD\<close>.\<close>

definition isoformat :: "date \<Rightarrow> string" where
  "isoformat d = zero_pad 4 (year d) @ ''-'' @ zero_pad 2 (month d) @ ''-'' @ zero_pad 2 (day d)"

section \<open>The date-range calculator\<close>

text \<open>
  \<^verbatim>\<open>
  def get_date_range(date, time_buffer_days=15):
      datetime_format = "%Y-%m-%dT"
      range_start = pd.to_datetime(date) - timedelta(days=time_buffer_days)
      date_range = f"{range_start.strftime(datetime_format)}/{pd.to_datetime(date).strftime(datetime_format)}"
      return date_range
  \<close>
\<close>

definition datetime_format :: string where
  "datetime_format = ''%Y-%m-%dT''"

definition get_date_range :: "date \<Rightarrow> int \<Rightarrow> error + string" where
  "get_date_range date' time_buffer_days =
     ebind (to_datetime date') (\<lambda>t.
     ebind (timestamp_minus_days t time_buffer_days) (\<lambda>range_start.
     ebind (to_datetime date') (\<lambda>t'.
       Inr (strftime datetime_format range_start @ ''/'' @ strftime datetime_format t'))))"

section \<open>Scene candidates\<close>

text \<open>
  A STAC item as the selector reads it: \<^verbatim>\<open>item.datetime\<close> (a datetime: a calendar date
  and a time of day), \<^verbatim>\<open>item.properties["platform"]\<close>, and \<^verbatim>\<open>item.bbox\<close>, the list
  \<^verbatim>\<open>[min_long, min_lat, max_long, max_lat]\<close>. \<open>item_id\<close> stands for the rest of the
  object (the handle the croppers fetch pixels with). Coordinates are floats; the
  selector only compares them, and the order of finite floats is the order of the reals
  they denote.
\<close>

record datetime =
  dt_date :: date
  dt_hour :: nat
  dt_minute :: nat
  dt_second :: nat

record bounding_box =
  min_long :: real
  min_lat :: real
  max_long :: real
  max_lat :: real

record item =
  item_id :: string
  item_datetime :: datetime
  platform :: string
  bbox :: bounding_box

section \<open>Strings\<close>

text \<open>
  \<^verbatim>\<open>str.lower()\<close> on the ASCII letters (platform names are ASCII), and the substring test
  of \<^verbatim>\<open>"sentinel" in s\<close> and of \<^verbatim>\<open>Series.str.contains("sentinel")\<close> (a pattern without
  regular-expression metacharacters).
\<close>

definition lower_char :: "char \<Rightarrow> char" where
  "lower_char c =
     (case map_of (zip ''ABCDEFGHIJKLMNOPQRSTUVWXYZ'' ''abcdefghijklmnopqrstuvwxyz'') c of
        None \<Rightarrow> c
      | Some l \<Rightarrow> l)"

definition str_lower :: "string \<Rightarrow> string" where
  "str_lower s = map lower_char s"

fun is_prefix :: "string \<Rightarrow> string \<Rightarrow> bool" where
  "is_prefix [] s = True"
| "is_prefix (p # ps) [] = False"
| "is_prefix (p # ps) (c # cs) = (p = c \<and> is_prefix ps cs)"

fun str_contains :: "string \<Rightarrow> string \<Rightarrow> bool" where
  "str_contains [] pat = (pat = [])"
| "str_contains (c # cs) pat = (is_prefix pat (c # cs) \<or> str_contains cs pat)"

definition is_sentinel :: "string \<Rightarrow> bool" where
  "is_sentinel platform_name = str_contains (str_lower platform_name) ''sentinel''"

section \<open>The scene selector\<close>

text \<open>
  \<^verbatim>\<open>
  def select_best_item(items, date, latitude, longitude):
      item_details = pd.DataFrame(
          [{"datetime": item.datetime.strftime("%Y-%m-%d"),
            "platform": item.properties["platform"],
            "min_long": item.bbox[0], "max_long": item.bbox[2],
            "min_lat": item.bbox[1], "max_lat": item.bbox[3],
            "item_obj": item} for item in items])
      item_details["contains_sample_point"] = (
          (item_details.min_lat < latitude) & (item_details.max_lat > latitude)
          & (item_details.min_long < longitude) & (item_details.max_long > longitude))
      item_details = item_details[item_details["contains_sample_point"] == True]
      if len(item_details) == 0:
          return (np.nan, np.nan, np.nan)
      item_details["time_diff"] = pd.to_datetime(date) - pd.to_datetime(item_details["datetime"])
      item_details["sentinel"] = item_details.platform.str.lower().str.contains("sentinel")
      if item_details["sentinel"].any():
          item_details = item_details[item_details["sentinel"] == True]
      best_item = item_details.sort_values(by="time_diff", ascending=True).iloc[0]
      return (best_item["item_obj"], best_item["platform"], best_item["datetime"])
  \<close>
  A frame is the list of its rows, in row order. The column \<^verbatim>\<open>datetime\<close> holds the text
  \<^verbatim>\<open>item.datetime.strftime("%Y-%m-%d")\<close>; the row keeps the calendar date that text
  spells (the time of day is gone), and the text itself is produced where it is returned.
\<close>

record row =
  col_datetime :: date
  col_platform :: string
  col_min_long :: real
  col_max_long :: real
  col_min_lat :: real
  col_max_lat :: real
  col_item_obj :: item

definition item_row :: "item \<Rightarrow> row" where
  "item_row it =
     \<lparr>col_datetime = dt_date (item_datetime it),
      col_platform = platform it,
      col_min_long = min_long (bbox it),
      col_max_long = max_long (bbox it),
      col_min_lat = min_lat (bbox it),
      col_max_lat = max_lat (bbox it),
      col_item_obj = it\<rparr>"

definition contains_sample_point :: "real \<Rightarrow> real \<Rightarrow> row \<Rightarrow> bool" where
  "contains_sample_point latitude longitude r \<longleftrightarrow>
     col_min_lat r < latitude \<and> col_max_lat r > latitude \<and>
     col_min_long r < longitude \<and> col_max_long r > longitude"

text \<open>The frame after the containment filter.\<close>

definition containing_rows :: "item list \<Rightarrow> real \<Rightarrow> real \<Rightarrow> row list" where
  "containing_rows items latitude longitude =
     filter (contains_sample_point latitude longitude) (map item_row items)"

text \<open>
  \<^verbatim>\<open>pd.to_datetime\<close> of a column: the first text that is no date in range raises. The
  column \<^verbatim>\<open>time_diff\<close> is a timedelta column; its entries are whole days here.
\<close>

fun to_datetime_series :: "date list \<Rightarrow> error + date list" where
  "to_datetime_series [] = Inr []"
| "to_datetime_series (d # ds) =
     ebind (to_datetime d) (\<lambda>t. ebind (to_datetime_series ds) (\<lambda>ts. Inr (t # ts)))"

definition time_diff_column :: "date \<Rightarrow> row list \<Rightarrow> error + int list" where
  "time_diff_column date' df =
     ebind (to_datetime date') (\<lambda>t.
     ebind (to_datetime_series (map col_datetime df)) (\<lambda>ts.
       Inr (map (\<lambda>d. toordinal t - toordinal d) ts)))"

text \<open>A row together with its entry in the column \<^verbatim>\<open>time_diff\<close>.\<close>

type_synonym timed_row = "row \<times> int"

definition sentinel :: "timed_row \<Rightarrow> bool" where
  "sentinel r = is_sentinel (col_platform (fst r))"

definition prefer_sentinel :: "timed_row list \<Rightarrow> timed_row list" where
  "prefer_sentinel df = (if \<exists>r \<in> set df. sentinel r then filter sentinel df else df)"

text \<open>
  \<^verbatim>\<open>sort_values(by="time_diff", ascending=True)\<close> sorts with the library's default kind
  (\<^verbatim>\<open>quicksort\<close>): pandas passes the key column to \<^verbatim>\<open>numpy.argsort\<close> and takes the rows
  in the order of the indices that come back. The library routine is a parameter
  \<open>argsort\<close> of the model.
\<close>

definition sort_values :: "(int list \<Rightarrow> nat list) \<Rightarrow> timed_row list \<Rightarrow> timed_row list" where
  "sort_values argsort df = map (\<lambda>i. df ! i) (argsort (map snd df))"

datatype selection =
    NoMatch
  | Selected item string string

definition select_best_item ::
  "(int list \<Rightarrow> nat list) \<Rightarrow> item list \<Rightarrow> date \<Rightarrow> real \<Rightarrow> real \<Rightarrow> error + selection" where
  "select_best_item argsort items date' latitude longitude =
     (if items = [] then Inl AttributeError
      else
        let item_details = containing_rows items latitude longitude in
        if length item_details = 0 then Inr NoMatch
        else
          ebind (time_diff_column date' item_details) (\<lambda>time_diff.
            case sort_values argsort (prefer_sentinel (zip item_details time_diff)) of
              [] \<Rightarrow> Inl IndexError
            | best_item # _ \<Rightarrow>
                Inr (Selected (col_item_obj (fst best_item)) (col_platform (fst best_item))
                      (strftime ''%Y-%m-%d'' (col_datetime (fst best_item))))))"

text \<open>
  What the library promises of \<open>argsort\<close> on a key list: the result lists every index
  of the key list once, and the keys are ascending along it. Nothing is promised about
  the order of equal keys (pandas: only \<^verbatim>\<open>mergesort\<close> and \<^verbatim>\<open>stable\<close> are stable kinds). A
  sort that is stable on a key list keeps the indices of equal keys in ascending order.
\<close>

definition sorts_keys :: "(int list \<Rightarrow> nat list) \<Rightarrow> int list \<Rightarrow> bool" where
  "sorts_keys argsort ks \<longleftrightarrow>
     length (argsort ks) = length ks \<and> set (argsort ks) = set [0..<length ks]
     \<and> sorted (map (\<lambda>i. ks ! i) (argsort ks))"

definition keeps_ties :: "(int list \<Rightarrow> nat list) \<Rightarrow> int list \<Rightarrow> bool" where
  "keeps_ties argsort ks \<longleftrightarrow>
     (\<forall>k. filter (\<lambda>i. ks ! i = k) (argsort ks) = filter (\<lambda>i. ks ! i = k) [0..<length ks])"

text \<open>A stable sort of the indices by their keys (insertion sort), as \<^verbatim>\<open>kind="stable"\<close> gives.\<close>

definition stable_argsort :: "int list \<Rightarrow> nat list" where
  "stable_argsort ks = sort_key (\<lambda>i. ks ! i) [0..<length ks]"

text \<open>
  The dates of a call that pandas converts without raising: the target date and the
  date of every row are calendar dates in the range of a timestamp.
\<close>

definition dates_ok :: "date \<Rightarrow> row list \<Rightarrow> bool" where
  "dates_ok date' df \<longleftrightarrow>
     valid_date date' \<and> in_bounds (toordinal date') \<and>
     (\<forall>r \<in> set df. valid_date (col_datetime r) \<and> in_bounds (toordinal (col_datetime r)))"

text \<open>
  The frame \<^verbatim>\<open>sort_values\<close> is called on, when no conversion raises: the rows that
  contain the point, each with its \<^verbatim>\<open>time_diff\<close>, after the Sentinel preference. Rows
  keep the order of the input.
\<close>

definition survivors :: "item list \<Rightarrow> date \<Rightarrow> real \<Rightarrow> real \<Rightarrow> timed_row list" where
  "survivors items date' latitude longitude =
     (let item_details = containing_rows items latitude longitude in
      prefer_sentinel
        (zip item_details
           (map (\<lambda>r. toordinal date' - toordinal (col_datetime r)) item_details)))"

text \<open>
  Two items that differ at most in the time of day of \<^verbatim>\<open>item.datetime\<close>; their rows,
  which differ at most in the column \<^verbatim>\<open>item_obj\<close>, and then only so; and an item moved
  to another time of day.
\<close>

definition same_day :: "item \<Rightarrow> item \<Rightarrow> bool" where
  "same_day a b \<longleftrightarrow>
     item_id a = item_id b \<and> dt_date (item_datetime a) = dt_date (item_datetime b) \<and>
     platform a = platform b \<and> bbox a = bbox b"

definition same_row :: "row \<Rightarrow> row \<Rightarrow> bool" where
  "same_row r r' \<longleftrightarrow>
     col_datetime r = col_datetime r' \<and> col_platform r = col_platform r' \<and>
     col_min_long r = col_min_long r' \<and> col_max_long r = col_max_long r' \<and>
     col_min_lat r = col_min_lat r' \<and> col_max_lat r = col_max_lat r' \<and>
     same_day (col_item_obj r) (col_item_obj r')"

definition same_timed_row :: "timed_row \<Rightarrow> timed_row \<Rightarrow> bool" where
  "same_timed_row r r' \<longleftrightarrow> same_row (fst r) (fst r') \<and> snd r = snd r'"

definition at_time :: "nat \<Rightarrow> nat \<Rightarrow> nat \<Rightarrow> item \<Rightarrow> item" where
  "at_time h m s it =
     it\<lparr>item_datetime := \<lparr>dt_date = dt_date (item_datetime it),
                              dt_hour = h, dt_minute = m, dt_second = s\<rparr>\<rparr>"

section \<open>Sample data\<close>

text \<open>
  The driver's sample date and its first location, and scenes around it: the documented
  example of the specification (A: Sentinel, two days before, contains the point;
  B: Landsat, on the day, contains the point; C: Sentinel, five days before, does not
  contain the point), a scene whose western edge passes through the point, a second
  scene of A's day at another time of day, and a scene dated five days after the
  sample date.
\<close>

definition sample_date :: date where
  "sample_date = \<lparr>year = 2022, month = 8, day = 31\<rparr>"

definition farm_lat :: real where
  "farm_lat = - 7.675039"

definition farm_long :: real where
  "farm_long = 107.769191"

definition box_around :: bounding_box where
  "box_around = \<lparr>min_long = 107, min_lat = - 8, max_long = 108, max_lat = - 7\<rparr>"

definition box_away :: bounding_box where
  "box_away = \<lparr>min_long = 108, min_lat = - 8, max_long = 109, max_lat = - 7\<rparr>"

definition box_edge :: bounding_box where
  "box_edge = \<lparr>min_long = 107.769191, min_lat = - 8, max_long = 109, max_lat = - 7\<rparr>"

definition scene_a :: item where
  "scene_a =
     \<lparr>item_id = ''A'',
      item_datetime = \<lparr>dt_date = \<lparr>year = 2022, month = 8, day = 29\<rparr>,
                       dt_hour = 3, dt_minute = 5, dt_second = 41\<rparr>,
      platform = ''Sentinel-2A'', bbox = box_around\<rparr>"

definition scene_a_later :: item where
  "scene_a_later =
     \<lparr>item_id = ''A2'',
      item_datetime = \<lparr>dt_date = \<lparr>year = 2022, month = 8, day = 29\<rparr>,
                       dt_hour = 23, dt_minute = 59, dt_second = 59\<rparr>,
      platform = ''Sentinel-2B'', bbox = box_around\<rparr>"

definition scene_b :: item where
  "scene_b =
     \<lparr>item_id = ''B'',
      item_datetime = \<lparr>dt_date = \<lparr>year = 2022, month = 8, day = 31\<rparr>,
                       dt_hour = 2, dt_minute = 45, dt_second = 0\<rparr>,
      platform = ''landsat-8'', bbox = box_around\<rparr>"

definition scene_c :: item where
  "scene_c =
     \<lparr>item_id = ''C'',
      item_datetime = \<lparr>dt_date = \<lparr>year = 2022, month = 8, day = 26\<rparr>,
                       dt_hour = 3, dt_minute = 5, dt_second = 41\<rparr>,
      platform = ''Sentinel-2B'', bbox = box_away\<rparr>"

definition scene_edge :: item where
  "scene_edge =
     \<lparr>item_id = ''E'',
      item_datetime = \<lparr>dt_date = \<lparr>year = 2022, month = 8, day = 30\<rparr>,
                       dt_hour = 3, dt_minute = 5, dt_second = 41\<rparr>,
      platform = ''Sentinel-2A'', bbox = box_edge\<rparr>"

definition scene_after :: item where
  "scene_after =
     \<lparr>item_id = ''F'',
      item_datetime = \<lparr>dt_date = \<lparr>year = 2022, month = 9, day = 5\<rparr>,
                       dt_hour = 3, dt_minute = 5, dt_second = 41\<rparr>,
      platform = ''Sentinel-2A'', bbox = box_around\<rparr>"

definition scene_on_day :: item where
  "scene_on_day =
     \<lparr>item_id = ''G'',
      item_datetime = \<lparr>dt_date = \<lparr>year = 2022, month = 8, day = 31\<rparr>,
                       dt_hour = 3, dt_minute = 5, dt_second = 41\<rparr>,
      platform = ''Sentinel-2B'', bbox = box_around\<rparr>"

section \<open>The collaborators of the driver\<close>

text \<open>
  What the script calls outside itself, as functions that return or raise:
  \<^item> \<open>makedirs\<close>: \<^verbatim>\<open>os.makedirs(IMAGE_ARRAY_DIR, exist_ok=True)\<close>;
  \<^item> \<open>client_open\<close>: \<^verbatim>\<open>Client.open(url, modifier=pc.sign_inplace)\<close>;
  \<^item> \<open>destination\<close>: \<^verbatim>\<open>distance.distance(meters=m).destination((lat, long), bearing=b)\<close>,
    the geodesic end point \<open>(lat, long)\<close>;
  \<^item> \<open>catalog_search\<close>: \<^verbatim>\<open>catalog.search(collections=[...], bbox=..., datetime=...)\<close>
    and \<^verbatim>\<open>get_all_items()\<close>, the list of items;
  \<^item> \<open>open_visual\<close>: \<^verbatim>\<open>rioxarray.open_rasterio(pc.sign(item.assets["visual"].href))\<close>,
    \<^verbatim>\<open>.rio.clip_box(...)\<close> and \<^verbatim>\<open>.to_numpy()\<close>;
  \<^item> \<open>stac_load_rgb\<close>: \<^verbatim>\<open>odc.stac.stac_load([pc.sign(item)], bands=[...], bbox=...)\<close>, the
    first time slice, as an array;
  \<^item> \<open>cv2_normalize\<close>: \<^verbatim>\<open>cv2.normalize(a, None, 0, 255, cv2.NORM_MINMAX)\<close>;
  \<^item> \<open>np_transpose\<close>: \<^verbatim>\<open>np.transpose(a, axes=[1, 2, 0])\<close>;
  \<^item> \<open>cv2_imwrite\<close>: \<^verbatim>\<open>cv2.imwrite(path, a)\<close>, whether the file was written;
  \<^item> \<open>float_str\<close>: the text of a float in an f-string.
  An image array is a value of the type \<open>'img\<close>; the driver only passes it on.
\<close>

record 'img collaborators =
  makedirs :: "string \<Rightarrow> error option"
  client_open :: "error option"
  destination :: "real \<Rightarrow> real \<times> real \<Rightarrow> real \<Rightarrow> error + real \<times> real"
  catalog_search :: "bounding_box \<Rightarrow> string \<Rightarrow> error + item list"
  open_visual :: "item \<Rightarrow> bounding_box \<Rightarrow> error + 'img"
  stac_load_rgb :: "item \<Rightarrow> bounding_box \<Rightarrow> error + 'img"
  cv2_normalize :: "'img \<Rightarrow> error + 'img"
  np_transpose :: "'img \<Rightarrow> error + 'img"
  cv2_imwrite :: "string \<Rightarrow> 'img \<Rightarrow> error + bool"
  float_str :: "real \<Rightarrow> string"

section \<open>Bounding boxes and croppers\<close>

text \<open>
  \<^verbatim>\<open>
  def get_bounding_box(latitude, longitude, meter_buffer=50000):
      distance_search = distance.distance(meters=meter_buffer)
      min_lat = distance_search.destination((latitude, longitude), bearing=180)[0]
      min_long = distance_search.destination((latitude, longitude), bearing=270)[1]
      max_lat = distance_search.destination((latitude, longitude), bearing=0)[0]
      max_long = distance_search.destination((latitude, longitude), bearing=90)[1]
      return [min_long, min_lat, max_long, max_lat]
  \<close>
\<close>

definition get_bounding_box ::
  "'img collaborators \<Rightarrow> real \<Rightarrow> real \<Rightarrow> real \<Rightarrow> error + bounding_box" where
  "get_bounding_box env latitude longitude meter_buffer =
     ebind (destination env meter_buffer (latitude, longitude) 180) (\<lambda>south.
     ebind (destination env meter_buffer (latitude, longitude) 270) (\<lambda>west.
     ebind (destination env meter_buffer (latitude, longitude) 0) (\<lambda>north.
     ebind (destination env meter_buffer (latitude, longitude) 90) (\<lambda>east.
       Inr \<lparr>min_long = snd west, min_lat = fst south,
            max_long = snd east, max_lat = fst north\<rparr>))))"

text \<open>
  \<^verbatim>\<open>crop_sentinel_image\<close> returns the clipped visual asset as it is;
  \<^verbatim>\<open>crop_landsat_image\<close> loads the three bands and returns \<^verbatim>\<open>cv2.normalize\<close> of them.
\<close>

definition crop_sentinel_image :: "'img collaborators \<Rightarrow> item \<Rightarrow> bounding_box \<Rightarrow> error + 'img" where
  "crop_sentinel_image env it bounding_box = open_visual env it bounding_box"

definition crop_landsat_image :: "'img collaborators \<Rightarrow> item \<Rightarrow> bounding_box \<Rightarrow> error + 'img" where
  "crop_landsat_image env it bounding_box =
     ebind (stac_load_rgb env it bounding_box) (\<lambda>image_array. cv2_normalize env image_array)"

section \<open>Min-max normalisation\<close>

text \<open>
  An image array is the list of its bands, a band the list of its rows, a row the list
  of its pixel values; \<open>pixels\<close> lists all values of an array. The values are real
  numbers (rounding to the element type is left out).
\<close>

type_synonym image_array = "real list list list"

definition pixels :: "image_array \<Rightarrow> real list" where
  "pixels a = concat (concat a)"

text \<open>
  Modelled from the spec: the linear map of a min-max normalisation, which takes the
  smallest value \<open>lo\<close> of an array to the lower end \<open>alpha\<close> of the range, the largest
  value \<open>hi\<close> to the upper end \<open>beta\<close>, and every other value in proportion ("linearly
  rescales pixel values into the 0-255 range"). It is part of OpenCV, whose code is not
  in the repository.
\<close>

definition rescale :: "real \<Rightarrow> real \<Rightarrow> real \<Rightarrow> real \<Rightarrow> real \<Rightarrow> real" where
  "rescale alpha beta lo hi x = alpha + (x - lo) * (beta - alpha) / (hi - lo)"

text \<open>
  Modelled from the spec: \<^verbatim>\<open>cv2.normalize(image_array, None, alpha, beta, cv2.NORM_MINMAX)\<close>,
  a call into the OpenCV library, whose code is not in the repository. The
  specification says of it that the Landsat cropper "stacks the three bands into a single
  array, and linearly rescales pixel values into the 0-255 range (min-max normalization
  across the whole array)": the smallest and the largest value are those of the whole
  array, not of a band.
\<close>

definition norm_minmax :: "real \<Rightarrow> real \<Rightarrow> image_array \<Rightarrow> image_array" where
  "norm_minmax alpha beta a =
     (let lo = Min (set (pixels a)); hi = Max (set (pixels a))
      in map (map (map (rescale alpha beta lo hi))) a)"

section \<open>The batch driver\<close>

text \<open>
  \<^verbatim>\<open>
  for _, row in d_metadata.iterrows():
      image_array_pth = os.path.join(IMAGE_ARRAY_DIR,
          f"{row.island}_{row.latitude}_{row.longitude}_{row.uid}.jpg")
      search_bbox = get_bounding_box(row.latitude, row.longitude, meter_buffer=50000)
      date_range = get_date_range(row.date, time_buffer_days=30)
      search = catalog.search(collections=["sentinel-2-l2a", "landsat-c2-l2"],
                              bbox=search_bbox, datetime=date_range)
      items = [item for item in search.get_all_items()]
      if len(items) == 0:
          pass
      else:
          best_item, item_platform, item_date = select_best_item(
              items, row.date, row.latitude, row.longitude)
      feature_bbox = get_bounding_box(row.latitude, row.longitude, meter_buffer=500)
      if "sentinel" in item_platform.lower():
          image_array = crop_sentinel_image(best_item, feature_bbox)
      else:
          image_array = crop_landsat_image(best_item, feature_bbox)
      image_array = np.transpose(image_array, axes=[1, 2, 0])
      cv2.imwrite(image_array_pth, image_array)
      print("save image", image_array_pth)
  \<close>
  The variables \<^verbatim>\<open>best_item\<close>, \<^verbatim>\<open>item_platform\<close> and \<^verbatim>\<open>item_date\<close> are locals of
  \<^verbatim>\<open>main\<close>: they are unbound until the first assignment and keep their values from one
  pass of the loop to the next. The state of the loop is these variables (\<open>None\<close>:
  unbound) and the files written so far, in order. The loop has no exception handler:
  the first exception ends the run, and the files written before it stay. Printing is
  left out.
\<close>

record location =
  loc_latitude :: real
  loc_longitude :: real
  loc_island :: string
  loc_date :: date
  loc_uid :: nat

record 'img run_state =
  selected :: "selection option"
  written :: "(string \<times> 'img) list"

definition image_array_dir :: string where
  "image_array_dir = ''data/image_arrays''"

definition image_array_pth :: "'img collaborators \<Rightarrow> location \<Rightarrow> string" where
  "image_array_pth env row =
     image_array_dir @ ''/'' @ loc_island row @ ''_'' @ float_str env (loc_latitude row) @ ''_''
       @ float_str env (loc_longitude row) @ ''_'' @ str_of_nat (loc_uid row) @ ''.jpg''"

text \<open>
  The cropping step reads \<^verbatim>\<open>item_platform\<close> and \<^verbatim>\<open>best_item\<close>: an unbound variable raises
  UnboundLocalError, and \<^verbatim>\<open>.lower()\<close> on the float \<^verbatim>\<open>nan\<close> of a "no match" raises
  AttributeError.
\<close>

definition crop_selected ::
  "'img collaborators \<Rightarrow> selection option \<Rightarrow> bounding_box \<Rightarrow> error + 'img" where
  "crop_selected env sel feature_bbox =
     (case sel of
        None \<Rightarrow> Inl UnboundLocalError
      | Some NoMatch \<Rightarrow> Inl AttributeError
      | Some (Selected best_item item_platform item_date) \<Rightarrow>
          if str_contains (str_lower item_platform) ''sentinel''
          then crop_sentinel_image env best_item feature_bbox
          else crop_landsat_image env best_item feature_bbox)"

definition process_row ::
  "'img collaborators \<Rightarrow> (int list \<Rightarrow> nat list) \<Rightarrow> 'img run_state \<Rightarrow> location
     \<Rightarrow> error + 'img run_state" where
  "process_row env argsort st row =
     ebind (get_bounding_box env (loc_latitude row) (loc_longitude row) 50000) (\<lambda>search_bbox.
     ebind (get_date_range (loc_date row) 30) (\<lambda>date_range.
     ebind (catalog_search env search_bbox date_range) (\<lambda>items.
     ebind (if length items = 0 then Inr (selected st)
            else ebind (select_best_item argsort items (loc_date row)
                          (loc_latitude row) (loc_longitude row))
                   (\<lambda>s. Inr (Some s))) (\<lambda>sel.
     ebind (get_bounding_box env (loc_latitude row) (loc_longitude row) 500) (\<lambda>feature_bbox.
     ebind (crop_selected env sel feature_bbox) (\<lambda>image_array.
     ebind (np_transpose env image_array) (\<lambda>image_array.
     ebind (cv2_imwrite env (image_array_pth env row) image_array) (\<lambda>ok.
       Inr \<lparr>selected = sel,
            written = (if ok then written st @ [(image_array_pth env row, image_array)]
                       else written st)\<rparr>))))))))"

text \<open>
  The loop: the state reached and, when a pass raised, the exception that ended the run.
\<close>

fun main_loop ::
  "'img collaborators \<Rightarrow> (int list \<Rightarrow> nat list) \<Rightarrow> 'img run_state \<Rightarrow> location list
     \<Rightarrow> 'img run_state \<times> error option" where
  "main_loop env argsort st [] = (st, None)"
| "main_loop env argsort st (row # rows) =
     (case process_row env argsort st row of
        Inl e \<Rightarrow> (st, Some e)
      | Inr st' \<Rightarrow> main_loop env argsort st' rows)"

definition farm_location :: "(real \<times> real \<times> string) list" where
  "farm_location =
     [(- 7.675039, 107.769191, ''jawa''),
      (- 7.786883, 108.155444, ''jawa''),
      (- 5.552498, 120.375194, ''sulawesi''),
      (- 5.559804, 120.376871, ''sulawesi''),
      (- 5.573898, 120.384974, ''sulawesi'')]"

definition d_metadata :: "location list" where
  "d_metadata =
     map (\<lambda>(uid, (latitude, longitude, island)).
            \<lparr>loc_latitude = latitude, loc_longitude = longitude, loc_island = island,
             loc_date = \<lparr>year = 2022, month = 8, day = 31\<rparr>, loc_uid = uid\<rparr>)
         (zip [0..<length farm_location] farm_location)"

definition initial_state :: "'img run_state" where
  "initial_state = \<lparr>selected = None, written = []\<rparr>"

definition main ::
  "'img collaborators \<Rightarrow> (int list \<Rightarrow> nat list) \<Rightarrow> 'img run_state \<times> error option" where
  "main env argsort =
     (case makedirs env image_array_dir of
        Some e \<Rightarrow> (initial_state, Some e)
      | None \<Rightarrow>
          (case client_open env of
             Some e \<Rightarrow> (initial_state, Some e)
           | None \<Rightarrow> main_loop env argsort initial_state d_metadata))"

section \<open>Sample collaborators\<close>

text \<open>
  Stand-ins for the collaborators, to run the driver on: a flat-earth end point
  (111 km to the degree), images that are names (\<open>visual\<close>: a clipped visual asset,
  \<open>rgb\<close>: three loaded bands), a file system that writes every file, and the text of the configured
  coordinates. The catalog is a parameter.
\<close>

definition sample_destination :: "real \<Rightarrow> real \<times> real \<Rightarrow> real \<Rightarrow> error + real \<times> real" where
  "sample_destination meters p bearing =
     (if bearing = 0 then Inr (fst p + meters / 111000, snd p)
      else if bearing = 180 then Inr (fst p - meters / 111000, snd p)
      else if bearing = 90 then Inr (fst p, snd p + meters / 111000)
      else Inr (fst p, snd p - meters / 111000))"

definition sample_float_str :: "real \<Rightarrow> string" where
  "sample_float_str x =
     (if x = - 7.675039 then ''-7.675039'' else if x = 107.769191 then ''107.769191''
      else if x = - 7.786883 then ''-7.786883'' else if x = 108.155444 then ''108.155444''
      else ''?'')"

definition sample_env ::
  "(bounding_box \<Rightarrow> string \<Rightarrow> error + item list) \<Rightarrow> string collaborators" where
  "sample_env catalog =
     \<lparr>makedirs = (\<lambda>p. None),
      client_open = None,
      destination = sample_destination,
      catalog_search = catalog,
      open_visual = (\<lambda>it b. Inr ''visual''),
      stac_load_rgb = (\<lambda>it b. Inr ''rgb''),
      cv2_normalize = (\<lambda>a. Inr a),
      np_transpose = (\<lambda>a. Inr a),
      cv2_imwrite = (\<lambda>p a. Inr True),
      float_str = sample_float_str\<rparr>"

text \<open>
  Three catalogs: one that finds nothing; one that finds scenes A, B and C around the
  first location and nothing elsewhere; and one that is unreachable for searches
  around the first location (west of 108 degrees) and finds scene C elsewhere.
\<close>

definition catalog_empty :: "bounding_box \<Rightarrow> string \<Rightarrow> error + item list" where
  "catalog_empty b date_range = Inr []"

definition catalog_first_only :: "bounding_box \<Rightarrow> string \<Rightarrow> error + item list" where
  "catalog_first_only b date_range =
     (if min_long b + max_long b < 216 then Inr [scene_a, scene_b, scene_c] else Inr [])"

definition catalog_first_down :: "bounding_box \<Rightarrow> string \<Rightarrow> error + item list" where
  "catalog_first_down b date_range =
     (if min_long b + max_long b < 216 then Inl (External ''catalog unreachable'')
      else Inr [scene_c])"

definition farm_0 :: location where
  "farm_0 = \<lparr>loc_latitude = - 7.675039, loc_longitude = 107.769191, loc_island = ''jawa'',
             loc_date = \<lparr>year = 2022, month = 8, day = 31\<rparr>, loc_uid = 0\<rparr>"

definition farm_1 :: location where
  "farm_1 = \<lparr>loc_latitude = - 7.786883, loc_longitude = 108.155444, loc_island = ''jawa'',
             loc_date = \<lparr>year = 2022, month = 8, day = 31\<rparr>, loc_uid = 1\<rparr>"

text \<open>
  Stand-ins to run the Landsat cropper on: three bands of one row of two pixels, and
  \<^verbatim>\<open>cv2.normalize\<close> as the min-max rescaling to 0 and 255.
\<close>

definition sample_rgb :: image_array where
  "sample_rgb = [[[7000, 9550]], [[8020, 12100]], [[7510, 10060]]]"

definition landsat_env :: "image_array collaborators" where
  "landsat_env =
     \<lparr>makedirs = (\<lambda>p. None),
      client_open = None,
      destination = sample_destination,
      catalog_search = catalog_empty,
      open_visual = (\<lambda>it b. Inr []),
      stac_load_rgb = (\<lambda>it b. Inr sample_rgb),
      cv2_normalize = (\<lambda>a. Inr (norm_minmax 0 255 a)),
      np_transpose = (\<lambda>a. Inr a),
      cv2_imwrite = (\<lambda>p a. Inr True),
      float_str = sample_float_str\<rparr>"

section \<open>The library's default sort\<close>

text \<open>
  \<^verbatim>\<open>sort_values\<close> with the default \<^verbatim>\<open>kind="quicksort"\<close> reaches \<^verbatim>\<open>numpy.argsort\<close> on the
  key column, which for a timedelta column runs numpy's generic introsort on an index
  array (\<^verbatim>\<open>aquicksort_\<close> in \<^verbatim>\<open>npysort/quicksort.cpp\<close>, with \<^verbatim>\<open>aheapsort_\<close> of
  \<^verbatim>\<open>npysort/heapsort.cpp\<close> behind its depth limit). The routine is transcribed here to
  run the selector on more than a handful of rows:
  \<^verbatim>\<open>
  int cdepth = npy_get_msb(num) * 2;
  while (1) {
      if (cdepth < 0) { aheapsort_(vv, pl, pr - pl + 1); goto stack_pop; }
      while ((pr - pl) > SMALL_QUICKSORT) {
          pm = pl + ((pr - pl) >> 1);
          if (less(v[*pm], v[*pl])) INTP_SWAP(*pm, *pl);
          if (less(v[*pr], v[*pm])) INTP_SWAP(*pr, *pm);
          if (less(v[*pm], v[*pl])) INTP_SWAP(*pm, *pl);
          vp = v[*pm];
          pi = pl;
          pj = pr - 1;
          INTP_SWAP(*pm, *pj);
          for (;;) {
              do { ++pi; } while (less(v[*pi], vp));
              do { --pj; } while (less(vp, v[*pj]));
              if (pi >= pj) break;
              INTP_SWAP(*pi, *pj);
          }
          pk = pr - 1;
          INTP_SWAP(*pi, *pk);
          if (pi - pl < pr - pi) { *sptr++ = pi + 1; *sptr++ = pr; pr = pi - 1; }
          else { *sptr++ = pl; *sptr++ = pi - 1; pl = pi + 1; }
          *psdepth++ = --cdepth;
      }
      for (pi = pl + 1; pi <= pr; ++pi) {
          vi = *pi; vp = v[vi]; pj = pi; pk = pi - 1;
          while (pj > pl && less(vp, v[*pk])) { *pj-- = *pk--; }
          *pj = vi;
      }
  stack_pop:
      if (sptr == stack) break;
      pr = *(--sptr); pl = *(--sptr); cdepth = *(--psdepth);
  }
  \<close>
  \<open>v\<close> is the key array and \<open>ts\<close> the index array \<^verbatim>\<open>tosort\<close>, which starts as
  \<open>0, 1, \<dots>\<close>; pointers into \<^verbatim>\<open>tosort\<close> are positions. The two scans of the partition
  stop at the pivot (at \<open>pr - 1\<close>) and at \<open>pl\<close> (whose key the median of three made no
  larger than the pivot's); the model's scans carry these two positions as bounds, which
  makes their termination evident and changes no result. The C variables \<^verbatim>\<open>pi\<close> and
  \<^verbatim>\<open>pj\<close> are \<open>p_i\<close> and \<open>p_j\<close>. \<^verbatim>\<open>SMALL_QUICKSORT\<close> is 15: a
  range of at most 16 entries (\<open>pr - pl \<le> 15\<close>) is sorted by insertion, which is
  stable; a range of 17 entries or more is partitioned, which is not.
\<close>

definition intp_swap :: "nat list \<Rightarrow> nat \<Rightarrow> nat \<Rightarrow> nat list" where
  "intp_swap ts a b = ts[a := ts ! b, b := ts ! a]"

fun npy_get_msb :: "nat \<Rightarrow> nat" where
  "npy_get_msb n = (if n < 2 then 0 else 1 + npy_get_msb (n div 2))"

declare npy_get_msb.simps [simp del]

definition median3 :: "int list \<Rightarrow> nat list \<Rightarrow> nat \<Rightarrow> nat \<Rightarrow> nat \<Rightarrow> nat list" where
  "median3 v ts pl pm pr =
     (let ts1 = (if v ! (ts ! pm) < v ! (ts ! pl) then intp_swap ts pm pl else ts);
          ts2 = (if v ! (ts1 ! pr) < v ! (ts1 ! pm) then intp_swap ts1 pr pm else ts1)
      in if v ! (ts2 ! pm) < v ! (ts2 ! pl) then intp_swap ts2 pm pl else ts2)"

function scan_up :: "int list \<Rightarrow> nat list \<Rightarrow> int \<Rightarrow> nat \<Rightarrow> nat \<Rightarrow> nat" where
  "scan_up v ts vp hi p_i =
     (if p_i + 1 < hi \<and> v ! (ts ! (p_i + 1)) < vp then scan_up v ts vp hi (p_i + 1) else p_i + 1)"
  by pat_completeness auto
termination
  by (relation "measure (\<lambda>(v, ts, vp, hi, p_i). hi - p_i)") auto

function scan_down :: "int list \<Rightarrow> nat list \<Rightarrow> int \<Rightarrow> nat \<Rightarrow> nat \<Rightarrow> nat" where
  "scan_down v ts vp lo p_j =
     (if lo < p_j - 1 \<and> vp < v ! (ts ! (p_j - 1)) then scan_down v ts vp lo (p_j - 1) else p_j - 1)"
  by pat_completeness auto
termination
  by (relation "measure (\<lambda>(v, ts, vp, lo, p_j). p_j)") auto

declare scan_up.simps [simp del] scan_down.simps [simp del]

lemma scan_up_bounds: "p_i < scan_up v ts vp hi p_i \<and> scan_up v ts vp hi p_i \<le> max (p_i + 1) hi"
proof (induction v ts vp hi p_i rule: scan_up.induct)
  case (1 v ts vp hi p_i)
  show ?case
  proof (cases "p_i + 1 < hi \<and> v ! (ts ! (p_i + 1)) < vp")
    case True
    with 1 show ?thesis by (subst (1 2) scan_up.simps) auto
  next
    case False
    then show ?thesis by (subst (1 2) scan_up.simps) auto
  qed
qed

lemma scan_down_bounds: "scan_down v ts vp lo p_j \<le> p_j - 1 \<and> min lo (p_j - 1) \<le> scan_down v ts vp lo p_j"
proof (induction v ts vp lo p_j rule: scan_down.induct)
  case (1 v ts vp lo p_j)
  show ?case
  proof (cases "lo < p_j - 1 \<and> vp < v ! (ts ! (p_j - 1))")
    case True
    with 1 show ?thesis by (subst (1 2) scan_down.simps) auto
  next
    case False
    then show ?thesis by (subst (1 2) scan_down.simps) auto
  qed
qed

function part_loop ::
  "int list \<Rightarrow> nat list \<Rightarrow> int \<Rightarrow> nat \<Rightarrow> nat \<Rightarrow> nat \<Rightarrow> nat \<Rightarrow> nat list \<times> nat" where
  "part_loop v ts vp lo hi p_i p_j =
     (let p_i' = scan_up v ts vp hi p_i; p_j' = scan_down v ts vp lo p_j
      in if p_i' \<ge> p_j' then (ts, p_i') else part_loop v (intp_swap ts p_i' p_j') vp lo hi p_i' p_j')"
  by pat_completeness auto
termination
proof (relation "measure (\<lambda>(v, ts, vp, lo, hi, p_i, p_j). p_j - p_i)", goal_cases)
  case 1
  then show ?case by simp
next
  case (2 v ts vp lo hi p_i p_j x xa)
  then show ?case
    using scan_up_bounds [of p_i v ts vp hi] scan_down_bounds [of v ts vp lo p_j] by auto
qed

declare part_loop.simps [simp del]

lemma part_loop_bounds:
  "p_i < p_j \<Longrightarrow> p_j \<le> hi \<Longrightarrow> part_loop v ts vp lo hi p_i p_j = (ts', r) \<Longrightarrow> p_i < r \<and> r \<le> hi"
proof (induction v ts vp lo hi p_i p_j arbitrary: ts' r rule: part_loop.induct)
  case (1 v ts vp lo hi p_i p_j)
  define p_i' where "p_i' = scan_up v ts vp hi p_i"
  define p_j' where "p_j' = scan_down v ts vp lo p_j"
  have u: "p_i < p_i'" "p_i' \<le> hi"
    using scan_up_bounds [of p_i v ts vp hi] 1(2,3) by (auto simp: p_i'_def)
  have d: "p_j' \<le> p_j - 1"
    using scan_down_bounds [of v ts vp lo p_j] by (simp add: p_j'_def)
  show ?case
  proof (cases "p_i' \<ge> p_j'")
    case True
    then have "r = p_i'" using 1(4)
      by (subst (asm) part_loop.simps) (auto simp: Let_def p_i'_def p_j'_def)
    with u show ?thesis by simp
  next
    case False
    then have e: "part_loop v (intp_swap ts p_i' p_j') vp lo hi p_i' p_j' = (ts', r)" using 1(4)
      by (subst (asm) part_loop.simps) (simp add: Let_def p_i'_def p_j'_def)
    have "p_i' < p_j'" "p_j' \<le> hi" using False d 1(3) by auto
    from 1(1) [OF p_i'_def p_j'_def False this e] u show ?thesis by simp
  qed
qed

definition partition_step :: "int list \<Rightarrow> nat list \<Rightarrow> nat \<Rightarrow> nat \<Rightarrow> nat list \<times> nat" where
  "partition_step v ts pl pr =
     (let pm = pl + (pr - pl) div 2;
          ts1 = median3 v ts pl pm pr;
          vp = v ! (ts1 ! pm);
          ts2 = intp_swap ts1 pm (pr - 1)
      in case part_loop v ts2 vp pl (pr - 1) pl (pr - 1) of
           (ts3, p_i) \<Rightarrow> (intp_swap ts3 p_i (pr - 1), p_i))"

lemma partition_step_bounds:
  assumes "pl + 1 < pr" "partition_step v ts pl pr = (ts', p_i)"
  shows "pl < p_i \<and> p_i < pr"
proof -
  obtain ts3 r where p: "part_loop v (intp_swap (median3 v ts pl (pl + (pr - pl) div 2) pr)
      (pl + (pr - pl) div 2) (pr - 1))
      (v ! (median3 v ts pl (pl + (pr - pl) div 2) pr ! (pl + (pr - pl) div 2))) pl (pr - 1) pl (pr - 1)
      = (ts3, r)" by (meson surj_pair)
  then have "p_i = r" using assms(2) by (simp add: partition_step_def Let_def)
  moreover have "pl < r \<and> r \<le> pr - 1"
    using part_loop_bounds [OF _ _ p] assms(1) by simp
  ultimately show ?thesis using assms(1) by linarith
qed

function ins_shift :: "int list \<Rightarrow> nat list \<Rightarrow> int \<Rightarrow> nat \<Rightarrow> nat \<Rightarrow> nat list \<times> nat" where
  "ins_shift v ts vp pl p_j =
     (if p_j > pl \<and> vp < v ! (ts ! (p_j - 1))
      then ins_shift v (ts[p_j := ts ! (p_j - 1)]) vp pl (p_j - 1)
      else (ts, p_j))"
  by pat_completeness auto
termination
  by (relation "measure (\<lambda>(v, ts, vp, pl, p_j). p_j)") auto

function ins_loop :: "int list \<Rightarrow> nat list \<Rightarrow> nat \<Rightarrow> nat \<Rightarrow> nat \<Rightarrow> nat list" where
  "ins_loop v ts pl pr p_i =
     (if p_i \<le> pr
      then (let vi = ts ! p_i in
            case ins_shift v ts (v ! vi) pl p_i of
              (ts', p_j) \<Rightarrow> ins_loop v (ts'[p_j := vi]) pl pr (p_i + 1))
      else ts)"
  by pat_completeness auto
termination
  by (relation "measure (\<lambda>(v, ts, pl, pr, p_i). pr + 1 - p_i)") auto

declare ins_shift.simps [simp del] ins_loop.simps [simp del]

definition insertion_sort :: "int list \<Rightarrow> nat list \<Rightarrow> nat \<Rightarrow> nat \<Rightarrow> nat list" where
  "insertion_sort v ts pl pr = ins_loop v ts pl pr (pl + 1)"

function sift :: "int list \<Rightarrow> nat list \<Rightarrow> nat \<Rightarrow> nat \<Rightarrow> nat \<Rightarrow> nat \<Rightarrow> nat \<Rightarrow> nat list \<times> nat" where
  "sift v ts b tmp i j n =
     (if j \<le> n \<and> 0 < j
      then (let j' = (if j < n \<and> v ! (ts ! (b + j - 1)) < v ! (ts ! (b + j)) then j + 1 else j)
            in if v ! tmp < v ! (ts ! (b + j' - 1))
               then sift v (ts[b + i - 1 := ts ! (b + j' - 1)]) b tmp j' (j' + j') n
               else (ts, i))
      else (ts, i))"
  by pat_completeness auto
termination
  by (relation "measure (\<lambda>(v, ts, b, tmp, i, j, n). n + 1 - j)") auto

function heapify :: "int list \<Rightarrow> nat list \<Rightarrow> nat \<Rightarrow> nat \<Rightarrow> nat \<Rightarrow> nat list" where
  "heapify v ts b l n =
     (if l > 0
      then (let tmp = ts ! (b + l - 1) in
            case sift v ts b tmp l (2 * l) n of
              (ts', i) \<Rightarrow> heapify v (ts'[b + i - 1 := tmp]) b (l - 1) n)
      else ts)"
  by pat_completeness auto
termination
  by (relation "measure (\<lambda>(v, ts, b, l, n). l)") auto

function heap_extract :: "int list \<Rightarrow> nat list \<Rightarrow> nat \<Rightarrow> nat \<Rightarrow> nat list" where
  "heap_extract v ts b n =
     (if n > 1
      then (let tmp = ts ! (b + n - 1);
                ts1 = ts[b + n - 1 := ts ! b]
            in case sift v ts1 b tmp 1 2 (n - 1) of
                 (ts2, i) \<Rightarrow> heap_extract v (ts2[b + i - 1 := tmp]) b (n - 1))
      else ts)"
  by pat_completeness auto
termination
  by (relation "measure (\<lambda>(v, ts, b, n). n)") auto

declare sift.simps [simp del] heapify.simps [simp del] heap_extract.simps [simp del]

definition aheapsort :: "int list \<Rightarrow> nat list \<Rightarrow> nat \<Rightarrow> nat \<Rightarrow> nat list" where
  "aheapsort v ts b n = heap_extract v (heapify v ts b (n div 2) n) b n"

definition small_quicksort :: nat where
  "small_quicksort = 15"

function aquicksort_loop ::
  "int list \<Rightarrow> nat list \<Rightarrow> nat \<Rightarrow> nat \<Rightarrow> int \<Rightarrow> bool \<Rightarrow> (nat \<times> nat \<times> int) list \<Rightarrow> nat list" where
  "aquicksort_loop v ts pl pr cdepth inner stack =
     (if \<not> inner \<and> cdepth < 0 then
        (case stack of
           [] \<Rightarrow> aheapsort v ts pl (pr + 1 - pl)
         | (l, r, d) # rest \<Rightarrow> aquicksort_loop v (aheapsort v ts pl (pr + 1 - pl)) l r d False rest)
      else if pr - pl > small_quicksort then
        (case partition_step v ts pl pr of
           (ts', p_i) \<Rightarrow>
             if p_i - pl < pr - p_i
             then aquicksort_loop v ts' pl (p_i - 1) (cdepth - 1) True ((p_i + 1, pr, cdepth - 1) # stack)
             else aquicksort_loop v ts' (p_i + 1) pr (cdepth - 1) True ((pl, p_i - 1, cdepth - 1) # stack))
      else
        (case stack of
           [] \<Rightarrow> insertion_sort v ts pl pr
         | (l, r, d) # rest \<Rightarrow> aquicksort_loop v (insertion_sort v ts pl pr) l r d False rest))"
  by pat_completeness auto
termination
proof (relation "measure (\<lambda>(v, ts, pl, pr, cdepth, inner, stack).
          2 * ((pr + 1 - pl) + sum_list (map (\<lambda>(l, r, d). r + 1 - l) stack)) + length stack)",
       goal_cases)
  case 1
  then show ?case by simp
next
  case (2 v ts pl pr cdepth inner stack x21 x22 xa y xb ya)
  then show ?case by auto
next
  case (3 v ts pl pr cdepth inner stack x y)
  then have "pl < y \<and> y < pr"
    using partition_step_bounds [of pl pr v ts x y] by (simp add: small_quicksort_def)
  then show ?case by auto
next
  case (4 v ts pl pr cdepth inner stack x y)
  then have "pl < y \<and> y < pr"
    using partition_step_bounds [of pl pr v ts x y] by (simp add: small_quicksort_def)
  then show ?case by auto
next
  case (5 v ts pl pr cdepth inner stack x21 x22 xa y xb ya)
  then show ?case by auto
qed

declare aquicksort_loop.simps [simp del]

definition aquicksort :: "int list \<Rightarrow> nat list" where
  "aquicksort v =
     (let num = length v
      in aquicksort_loop v [0..<num] 0 (num - 1) (2 * int (npy_get_msb num)) False [])"




text \<open>
  Insertion of an index into a list of indices held in descending order of their keys,
  behind the entries of the same key: the functional reading of one pass of the
  insertion sort above, used to state what that sort computes on a short array.
\<close>

fun ins_rev :: "int list \<Rightarrow> nat \<Rightarrow> nat list \<Rightarrow> nat list" where
  "ins_rev v x [] = [x]"
| "ins_rev v x (y # ys) = (if v ! x < v ! y then y # ins_rev v x ys else x # y # ys)"

section \<open>Facts about the calendar\<close>

lemma div_step:
  assumes "0 < (c::int)"
  shows "k div c = (k - 1) div c + (if k mod c = 0 then 1 else 0)"
proof (cases "k mod c = 0")
  case True
  have "k = c * (k div c)"
    using True by (metis add.right_neutral mult_div_mod_eq)
  then have "k - 1 = c * (k div c - 1) + (c - 1)"
    by (simp add: algebra_simps)
  then have "(k - 1) div c = k div c - 1"
    by (rule int_div_pos_eq) (use assms in simp_all)
  then show ?thesis using True by simp
next
  case False
  have "0 \<le> k mod c" "k mod c < c" using assms by simp_all
  then have a: "0 \<le> k mod c - 1" using False by linarith
  have b: "k mod c - 1 < c" using \<open>k mod c < c\<close> by linarith
  have "k - 1 = c * (k div c) + (k mod c - 1)"
    by (simp add: algebra_simps)
  then have "(k - 1) div c = k div c"
    using a b by (rule int_div_pos_eq)
  then show ?thesis using False by simp
qed

lemma days_before_year_Suc:
  "days_before_year (Suc y) = days_before_year y + (if is_leap y then 366 else 365)"
proof -
  define A where "A = (int y - 1) div 4"
  define B where "B = (int y - 1) div 100"
  define C where "C = (int y - 1) div 400"
  have m: "(y mod c = 0) = (int y mod int c = 0)" for c
    by (metis of_nat_eq_0_iff zmod_int)
  have m4: "(y mod 4 = 0) = (int y mod 4 = 0)" using m [of 4] by simp
  have m100: "(y mod 100 = 0) = (int y mod 100 = 0)" using m [of 100] by simp
  have m400: "(y mod 400 = 0) = (int y mod 400 = 0)" using m [of 400] by simp
  have d4: "int y div 4 = A + (if int y mod 4 = 0 then 1 else 0)"
    unfolding A_def by (rule div_step) simp
  have d100: "int y div 100 = B + (if int y mod 100 = 0 then 1 else 0)"
    unfolding B_def by (rule div_step) simp
  have d400: "int y div 400 = C + (if int y mod 400 = 0 then 1 else 0)"
    unfolding C_def by (rule div_step) simp
  have "(100::int) dvd 400" "(4::int) dvd 100" by simp_all
  then have imp1: "int y mod 400 = 0 \<Longrightarrow> int y mod 100 = 0"
    and imp2: "int y mod 100 = 0 \<Longrightarrow> int y mod 4 = 0"
    unfolding mod_eq_0_iff_dvd by (blast intro: dvd_trans)+
  have e: "days_before_year (Suc y) = 365 * int y + int y div 4 - int y div 100 + int y div 400"
    by (simp add: days_before_year_def Let_def)
  have f: "days_before_year y = 365 * (int y - 1) + A - B + C"
    by (simp add: days_before_year_def Let_def A_def B_def C_def)
  have l: "is_leap y \<longleftrightarrow> int y mod 4 = 0 \<and> (int y mod 100 \<noteq> 0 \<or> int y mod 400 = 0)"
    by (simp add: is_leap_def m4 m100 m400)
  show ?thesis
  proof (cases "int y mod 4 = 0")
    case False
    then have "int y mod 100 \<noteq> 0" "int y mod 400 \<noteq> 0" using imp1 imp2 by auto
    with False show ?thesis unfolding e f l d4 d100 d400 by simp
  next
    case True
    show ?thesis
    proof (cases "int y mod 100 = 0")
      case False
      then have "int y mod 400 \<noteq> 0" using imp1 by auto
      with True False show ?thesis unfolding e f l d4 d100 d400 by simp
    next
      case h: True
      show ?thesis
        using True h unfolding e f l d4 d100 d400 by (cases "int y mod 400 = 0") simp_all
    qed
  qed
qed


lemma month_cases:
  assumes "1 \<le> m" "m \<le> (12::nat)"
  shows "m = 1 \<or> m = 2 \<or> m = 3 \<or> m = 4 \<or> m = 5 \<or> m = 6 \<or> m = 7 \<or> m = 8 \<or> m = 9 \<or> m = 10 \<or> m = 11 \<or> m = 12"
  using assms by presburger

lemma days_before_month_step:
  assumes "2 \<le> m" "m \<le> 12"
  shows "days_before_month y (m - 1) + int (days_in_month y (m - 1)) = days_before_month y m"
proof -
  have "m = 2 \<or> m = 3 \<or> m = 4 \<or> m = 5 \<or> m = 6 \<or> m = 7 \<or> m = 8 \<or> m = 9 \<or> m = 10 \<or> m = 11 \<or> m = 12"
    using assms by presburger
  then show ?thesis
    by (elim disjE) (simp_all add: days_before_month_def days_in_month_def)
qed

lemma days_in_month_pos: "1 \<le> days_in_month y m"
  by (simp add: days_in_month_def)

lemma days_in_december: "days_in_month y 12 = 31"
  by (simp add: days_in_month_def)

lemma year_end: "days_before_month y 12 + 31 = (if is_leap y then 366 else 365)"
  by (simp add: days_before_month_def)

lemma toordinal_prev_day:
  assumes "valid_date d"
  shows "toordinal (prev_day d) = toordinal d - 1"
proof -
  consider (a) "1 < day d" | (b) "day d = 1" "1 < month d" | (c) "day d = 1" "month d = 1"
    using assms unfolding valid_date_def by linarith
  then show ?thesis
  proof cases
    case a
    then show ?thesis by (simp add: prev_day_def toordinal_def)
  next
    case b
    then have "2 \<le> month d" "month d \<le> 12" using assms by (simp_all add: valid_date_def)
    from days_before_month_step [OF this] b show ?thesis
      by (simp add: prev_day_def toordinal_def)
  next
    case c
    obtain y where y: "year d = Suc y" using assms unfolding valid_date_def
      by (cases "year d") simp_all
    show ?thesis using c y year_end [of y]
      by (simp add: prev_day_def toordinal_def days_before_year_Suc days_before_month_def)
  qed
qed

lemma valid_prev_day:
  assumes "valid_date d" "2 \<le> year d"
  shows "valid_date (prev_day d)"
  using assms days_in_month_pos [of "year d" "month d - 1"]
  by (auto simp: valid_date_def prev_day_def days_in_december)

lemma toordinal_next_day:
  assumes "valid_date d"
  shows "toordinal (next_day d) = toordinal d + 1"
proof -
  consider (a) "day d < days_in_month (year d) (month d)"
    | (b) "day d = days_in_month (year d) (month d)" "month d < 12"
    | (c) "day d = days_in_month (year d) (month d)" "month d = 12"
    using assms unfolding valid_date_def by linarith
  then show ?thesis
  proof cases
    case a
    then show ?thesis by (simp add: next_day_def toordinal_def)
  next
    case b
    then have "2 \<le> month d + 1" "month d + 1 \<le> 12"
      using assms by (simp_all add: valid_date_def)
    from days_before_month_step [OF this] b show ?thesis
      by (simp add: next_day_def toordinal_def)
  next
    case c
    show ?thesis using c year_end [of "year d"]
      by (simp add: next_day_def toordinal_def days_before_year_Suc days_before_month_def
          days_in_december)
  qed
qed

lemma valid_next_day:
  assumes "valid_date d" "year d \<le> 9998"
  shows "valid_date (next_day d)"
  using assms days_in_month_pos [of "year d" "month d + 1"]
    days_in_month_pos [of "Suc (year d)" "Suc 0"]
  by (auto simp: valid_date_def next_day_def)


lemma days_before_year_mono: "a \<le> b \<Longrightarrow> days_before_year a \<le> days_before_year b"
  by (rule lift_Suc_mono_le [of days_before_year]) (simp_all add: days_before_year_Suc)

lemma toordinal_year_lower:
  assumes "valid_date d"
  shows "days_before_year (year d) < toordinal d"
  using assms by (simp add: toordinal_def valid_date_def days_before_month_def)

lemma toordinal_year_upper:
  assumes "valid_date d"
  shows "toordinal d \<le> days_before_year (Suc (year d))"
proof -
  have m: "1 \<le> month d" "month d \<le> 12" using assms by (simp_all add: valid_date_def)
  have "days_before_month (year d) (month d) + int (day d)
          \<le> (if is_leap (year d) then 366 else 365)"
    using month_cases [OF m] assms
    by (elim disjE)
      (simp_all add: valid_date_def days_before_month_def days_in_month_def split: if_splits)
  then show ?thesis by (simp add: toordinal_def days_before_year_Suc)
qed

lemma ts_min_val: "ts_min = 612412"
  by (simp add: ts_min_def toordinal_def days_before_year_def days_before_month_def is_leap_def)

lemma ts_max_val: "ts_max = 825914"
  by (simp add: ts_max_def toordinal_def days_before_year_def days_before_month_def is_leap_def)

lemma in_bounds_year:
  assumes "valid_date d" "in_bounds (toordinal d)"
  shows "1677 \<le> year d \<and> year d \<le> 2262"
proof -
  have lo: "1677 \<le> year d"
  proof (rule ccontr)
    assume "\<not> 1677 \<le> year d"
    then have "Suc (year d) \<le> 1677" by simp
    then have "days_before_year (Suc (year d)) \<le> days_before_year 1677"
      by (rule days_before_year_mono)
    also have "\<dots> < ts_min" by (simp add: ts_min_val days_before_year_def)
    finally show False
      using toordinal_year_upper [OF assms(1)] assms(2) by (simp add: in_bounds_def)
  qed
  have hi: "year d \<le> 2262"
  proof (rule ccontr)
    assume "\<not> year d \<le> 2262"
    then have "2263 \<le> year d" by simp
    then have "days_before_year 2263 \<le> days_before_year (year d)"
      by (rule days_before_year_mono)
    moreover have "ts_max \<le> days_before_year 2263" by (simp add: ts_max_val days_before_year_def)
    ultimately show False
      using toordinal_year_lower [OF assms(1)] assms(2) by (simp add: in_bounds_def)
  qed
  from lo hi show ?thesis ..
qed

lemma prev_day_pow:
  assumes "valid_date d" "toordinal d \<le> ts_max" "ts_min \<le> toordinal d - int n"
  shows "valid_date ((prev_day ^^ n) d) \<and> toordinal ((prev_day ^^ n) d) = toordinal d - int n"
  using assms(3)
proof (induction n)
  case 0
  then show ?case using assms(1) by simp
next
  case (Suc n)
  then have ih: "valid_date ((prev_day ^^ n) d)"
    "toordinal ((prev_day ^^ n) d) = toordinal d - int n" by simp_all
  have "in_bounds (toordinal ((prev_day ^^ n) d))"
    using Suc.prems assms(2) by (simp add: in_bounds_def ih(2))
  then have "2 \<le> year ((prev_day ^^ n) d)"
    using in_bounds_year [OF ih(1)] by simp
  then show ?case
    using valid_prev_day [OF ih(1)] toordinal_prev_day [OF ih(1)] ih(2) by simp
qed

lemma next_day_pow:
  assumes "valid_date d" "ts_min \<le> toordinal d" "toordinal d + int n \<le> ts_max"
  shows "valid_date ((next_day ^^ n) d) \<and> toordinal ((next_day ^^ n) d) = toordinal d + int n"
  using assms(3)
proof (induction n)
  case 0
  then show ?case using assms(1) by simp
next
  case (Suc n)
  then have ih: "valid_date ((next_day ^^ n) d)"
    "toordinal ((next_day ^^ n) d) = toordinal d + int n" by simp_all
  have "in_bounds (toordinal ((next_day ^^ n) d))"
    using Suc.prems assms(2) by (simp add: in_bounds_def ih(2))
  then have "year ((next_day ^^ n) d) \<le> 9998"
    using in_bounds_year [OF ih(1)] by simp
  then show ?case
    using valid_next_day [OF ih(1)] toordinal_next_day [OF ih(1)] ih(2) by simp
qed

lemma days_back_funpow: "days_back n d = (prev_day ^^ n) d"
proof (induction n arbitrary: d)
  case 0
  then show ?case by (simp add: days_back.simps)
next
  case (Suc n)
  have "days_back (Suc n) d = days_back n (prev_day d)"
    by (subst days_back.simps) simp
  then show ?case by (simp add: Suc.IH funpow_swap1)
qed

lemma days_forward_funpow: "days_forward n d = (next_day ^^ n) d"
proof (induction n arbitrary: d)
  case 0
  then show ?case by (simp add: days_forward.simps)
next
  case (Suc n)
  have "days_forward (Suc n) d = days_forward n (next_day d)"
    by (subst days_forward.simps) simp
  then show ?case by (simp add: Suc.IH funpow_swap1)
qed

lemma minus_days_correct:
  assumes "valid_date d" "in_bounds (toordinal d)" "in_bounds (toordinal d - w)"
  shows "valid_date (minus_days d w) \<and> toordinal (minus_days d w) = toordinal d - w"
proof (cases "0 \<le> w")
  case True
  have "ts_min \<le> toordinal d - int (nat w)" using True assms(3) by (simp add: in_bounds_def)
  from prev_day_pow [OF assms(1) _ this] assms(2) True show ?thesis
    by (simp add: minus_days_def in_bounds_def days_back_funpow days_forward_funpow)
next
  case False
  have "toordinal d + int (nat (- w)) \<le> ts_max" using False assms(3) by (simp add: in_bounds_def)
  from next_day_pow [OF assms(1) _ this] assms(2) False show ?thesis
    by (simp add: minus_days_def in_bounds_def days_back_funpow days_forward_funpow)
qed

section \<open>Facts about the date-range calculator\<close>

lemma strftime_datetime_format: "strftime datetime_format d = isoformat d @ ''T''"
  by (simp add: datetime_format_def isoformat_def directive_def)

lemmas ord_eval = days_in_month_def is_leap_def valid_date_def toordinal_def
  days_before_year_def days_before_month_def in_bounds_def ts_min_val ts_max_val Let_def

lemmas shift_eval = minus_days_def days_back.simps days_forward.simps prev_day_def
  next_day_def days_in_month_def is_leap_def

lemmas fmt_eval = isoformat_def zero_pad_def str_of_nat.simps digit_char_def

lemma length_str_of_nat_1: "n < 10 \<Longrightarrow> length (str_of_nat n) = 1"
  by (subst str_of_nat.simps) simp

lemma length_str_of_nat_2: "10 \<le> n \<Longrightarrow> n < 100 \<Longrightarrow> length (str_of_nat n) = 2"
  by (subst str_of_nat.simps) (simp add: length_str_of_nat_1)

lemma length_str_of_nat_3: "100 \<le> n \<Longrightarrow> n < 1000 \<Longrightarrow> length (str_of_nat n) = 3"
  by (subst str_of_nat.simps) (simp add: length_str_of_nat_2)

lemma length_str_of_nat_4: "1000 \<le> n \<Longrightarrow> n < 10000 \<Longrightarrow> length (str_of_nat n) = 4"
  by (subst str_of_nat.simps) (simp add: length_str_of_nat_3)

lemma length_zero_pad_2: "n < 100 \<Longrightarrow> length (zero_pad 2 n) = 2"
  using length_str_of_nat_1 [of n] length_str_of_nat_2 [of n]
  by (cases "n < 10") (simp_all add: zero_pad_def Let_def)

lemma length_isoformat:
  assumes "valid_date d" "1000 \<le> year d"
  shows "length (isoformat d) = 10"
proof -
  have y: "length (zero_pad 4 (year d)) = 4"
    using assms length_str_of_nat_4 [of "year d"] by (simp add: zero_pad_def Let_def valid_date_def)
  have "month d < 100" using assms by (simp add: valid_date_def)
  then have m: "length (zero_pad 2 (month d)) = 2" by (rule length_zero_pad_2)
  have "days_in_month (year d) (month d) \<le> 31" by (simp add: days_in_month_def)
  then have "day d < 100" using assms by (simp add: valid_date_def)
  then have dd: "length (zero_pad 2 (day d)) = 2" by (rule length_zero_pad_2)
  show ?thesis by (simp add: isoformat_def y m dd)
qed

lemma sample_date_ok:
  "valid_date \<lparr>year = 2022, month = 8, day = 31\<rparr>
   \<and> in_bounds (toordinal \<lparr>year = 2022, month = 8, day = 31\<rparr>)
   \<and> in_bounds (toordinal \<lparr>year = 2022, month = 8, day = 31\<rparr> - 30)"
  by (simp add: ord_eval)

lemma sample_minus_30:
  "minus_days \<lparr>year = 2022, month = 8, day = 31\<rparr> 30 = \<lparr>year = 2022, month = 8, day = 1\<rparr>"
  by (simp add: shift_eval)

lemma sample_isoformat:
  "isoformat \<lparr>year = 2022, month = 8, day = 1\<rparr> = ''2022-08-01''"
  "isoformat \<lparr>year = 2022, month = 8, day = 31\<rparr> = ''2022-08-31''"
  by (simp_all add: fmt_eval)

lemma sample_date_range:
  "get_date_range \<lparr>year = 2022, month = 8, day = 31\<rparr> 30 = Inr ''2022-08-01T/2022-08-31T''"
proof -
  have td: "to_datetime \<lparr>year = 2022, month = 8, day = 31\<rparr>
              = Inr \<lparr>year = 2022, month = 8, day = 31\<rparr>"
    using sample_date_ok by (simp add: to_datetime_def)
  have tm: "timestamp_minus_days \<lparr>year = 2022, month = 8, day = 31\<rparr> 30
              = Inr \<lparr>year = 2022, month = 8, day = 1\<rparr>"
    using sample_date_ok by (simp add: timestamp_minus_days_def td_max_days_def sample_minus_30)
  show ?thesis
    by (simp add: get_date_range_def td tm ebind_def strftime_datetime_format sample_isoformat
        del: One_nat_def)
qed

lemma leap_date_ok:
  "valid_date \<lparr>year = 2020, month = 3, day = 2\<rparr>
   \<and> in_bounds (toordinal \<lparr>year = 2020, month = 3, day = 2\<rparr>)
   \<and> in_bounds (toordinal \<lparr>year = 2020, month = 3, day = 2\<rparr> - 62)"
  by (simp add: ord_eval)

lemma leap_minus_62:
  "minus_days \<lparr>year = 2020, month = 3, day = 2\<rparr> 62 = \<lparr>year = 2019, month = 12, day = 31\<rparr>"
  by (simp add: shift_eval)

lemma leap_isoformat:
  "isoformat \<lparr>year = 2019, month = 12, day = 31\<rparr> = ''2019-12-31''"
  "isoformat \<lparr>year = 2020, month = 3, day = 2\<rparr> = ''2020-03-02''"
  by (simp_all add: fmt_eval)

lemma timestamp_minus_days_Inr:
  "timestamp_minus_days t w = Inr s \<longleftrightarrow>
     \<bar>w\<bar> \<le> td_max_days \<and> in_bounds (toordinal t - w) \<and> s = minus_days t w"
  by (auto simp: timestamp_minus_days_def)

lemma sample_far_back:
  "get_date_range \<lparr>year = 2022, month = 8, day = 31\<rparr> 800000 = Inl OutOfBoundsTimedelta"
proof -
  have td: "to_datetime \<lparr>year = 2022, month = 8, day = 31\<rparr>
              = Inr \<lparr>year = 2022, month = 8, day = 31\<rparr>"
    using sample_date_ok by (simp add: to_datetime_def)
  show ?thesis
    by (simp add: get_date_range_def td ebind_def timestamp_minus_days_def td_max_days_def)
qed

section \<open>The claims about the date-range calculator\<close>

text \<open>
  Claim C5, as the specification states it: for every target date \<open>D\<close> and window
  \<open>W \<ge> 0\<close> the date-range calculator returns the two ISO-8601 dates \<open>D - W\<close> days and
  \<open>D\<close>, joined by a slash. The script's format is \<^verbatim>\<open>%Y-%m-%dT\<close>: each date is followed
  by the letter T. For the driver's own call (2022-08-31, 30 days) the result is
  \<^verbatim>\<open>2022-08-01T/2022-08-31T\<close>, not \<^verbatim>\<open>2022-08-01/2022-08-31\<close>. And the calculator does
  not return for every window: for 2022-08-31 and 800000 days, a start before the year 1,
  the subtraction raises.
\<close>

theorem get_date_range_counterexample:
  "get_date_range \<lparr>year = 2022, month = 8, day = 31\<rparr> 30 = Inr ''2022-08-01T/2022-08-31T''
   \<and> get_date_range \<lparr>year = 2022, month = 8, day = 31\<rparr> 30
       \<noteq> Inr (isoformat (minus_days \<lparr>year = 2022, month = 8, day = 31\<rparr> 30) @ ''/''
                @ isoformat \<lparr>year = 2022, month = 8, day = 31\<rparr>)
   \<and> toordinal \<lparr>year = 2022, month = 8, day = 31\<rparr> - 800000 < 1
   \<and> get_date_range \<lparr>year = 2022, month = 8, day = 31\<rparr> 800000 = Inl OutOfBoundsTimedelta"
  by (simp add: sample_date_range sample_minus_30 sample_isoformat sample_far_back ord_eval
      del: One_nat_def)

text \<open>
  Claim C5, amended: for every target date \<open>D\<close> and window \<open>W\<close> for which the date
  library converts \<open>D\<close> and takes \<open>W\<close> days from it without raising, the calculator
  returns the ISO-8601 date of the day \<open>W\<close> days before \<open>D\<close>, the letter T, a slash,
  the ISO-8601 date of \<open>D\<close>, and the letter T. The start is a valid calendar date whose
  day number is that of \<open>D\<close> minus \<open>W\<close> (so month and year ends are crossed correctly),
  both dates are ten characters long, and no time of day is printed. (The statement
  does not need \<open>W \<ge> 0\<close>.)
\<close>

theorem get_date_range_interval:
  assumes "to_datetime D = Inr t" and "timestamp_minus_days t W = Inr S"
  shows "get_date_range D W = Inr (isoformat S @ ''T/'' @ isoformat D @ ''T'')
         \<and> valid_date S
         \<and> toordinal S = toordinal D - W
         \<and> length (isoformat S) = 10 \<and> length (isoformat D) = 10"
proof -
  have d: "valid_date D" "in_bounds (toordinal D)" "t = D"
    using assms(1) by (simp_all add: to_datetime_def split: if_splits)
  have s: "in_bounds (toordinal D - W)" "S = minus_days D W"
    using assms(2) by (simp_all add: timestamp_minus_days_Inr d(3))
  have r: "get_date_range D W = Inr (isoformat S @ ''T/'' @ isoformat D @ ''T'')"
    using assms by (simp add: get_date_range_def ebind_def strftime_datetime_format d(3))
  have c: "valid_date S" "toordinal S = toordinal D - W"
    using minus_days_correct [OF d(1,2) s(1)] by (simp_all add: s(2))
  have "1000 \<le> year D" using in_bounds_year [OF d(1,2)] by simp
  then have l1: "length (isoformat D) = 10" using d(1) by (simp add: length_isoformat)
  have "in_bounds (toordinal S)" using s(1) c(2) by simp
  then have "1000 \<le> year S" using in_bounds_year [OF c(1)] by simp
  then have l2: "length (isoformat S) = 10" using c(1) by (simp add: length_isoformat)
  from r c l1 l2 show ?thesis by simp
qed

text \<open>
  Witness for C5: the driver's call, 30 days back from 2022-08-31, and a window that
  crosses a leap day and the end of a year, 62 days back from 2020-03-02.
\<close>

theorem get_date_range_interval_witness:
  "to_datetime \<lparr>year = 2022, month = 8, day = 31\<rparr> = Inr \<lparr>year = 2022, month = 8, day = 31\<rparr>
   \<and> timestamp_minus_days \<lparr>year = 2022, month = 8, day = 31\<rparr> 30
       = Inr \<lparr>year = 2022, month = 8, day = 1\<rparr>
   \<and> get_date_range \<lparr>year = 2022, month = 8, day = 31\<rparr> 30 = Inr ''2022-08-01T/2022-08-31T''
   \<and> toordinal \<lparr>year = 2022, month = 8, day = 1\<rparr>
       = toordinal \<lparr>year = 2022, month = 8, day = 31\<rparr> - 30
   \<and> to_datetime \<lparr>year = 2020, month = 3, day = 2\<rparr> = Inr \<lparr>year = 2020, month = 3, day = 2\<rparr>
   \<and> timestamp_minus_days \<lparr>year = 2020, month = 3, day = 2\<rparr> 62
       = Inr \<lparr>year = 2019, month = 12, day = 31\<rparr>
   \<and> get_date_range \<lparr>year = 2020, month = 3, day = 2\<rparr> 62 = Inr ''2019-12-31T/2020-03-02T''"
proof -
  have td: "to_datetime \<lparr>year = 2022, month = 8, day = 31\<rparr>
              = Inr \<lparr>year = 2022, month = 8, day = 31\<rparr>"
    using sample_date_ok by (simp add: to_datetime_def)
  have tm: "timestamp_minus_days \<lparr>year = 2022, month = 8, day = 31\<rparr> 30
              = Inr \<lparr>year = 2022, month = 8, day = 1\<rparr>"
    using sample_date_ok by (simp add: timestamp_minus_days_def td_max_days_def sample_minus_30)
  have ld: "to_datetime \<lparr>year = 2020, month = 3, day = 2\<rparr>
              = Inr \<lparr>year = 2020, month = 3, day = 2\<rparr>"
    using leap_date_ok by (simp add: to_datetime_def)
  have lm: "timestamp_minus_days \<lparr>year = 2020, month = 3, day = 2\<rparr> 62
              = Inr \<lparr>year = 2019, month = 12, day = 31\<rparr>"
    using leap_date_ok by (simp add: timestamp_minus_days_def td_max_days_def leap_minus_62)
  from get_date_range_interval [OF td tm] get_date_range_interval [OF ld lm] td tm ld lm
  show ?thesis
    by (simp add: sample_isoformat leap_isoformat del: One_nat_def)
qed

section \<open>Facts about the scene selector\<close>

lemma to_datetime_Inr: "to_datetime d = Inr t \<longleftrightarrow> valid_date d \<and> in_bounds (toordinal d) \<and> t = d"
  by (auto simp: to_datetime_def)

lemma to_datetime_series_Inr:
  "to_datetime_series ds = Inr ts \<longleftrightarrow>
     (\<forall>d \<in> set ds. valid_date d \<and> in_bounds (toordinal d)) \<and> ts = ds"
proof (induction ds arbitrary: ts)
  case Nil
  then show ?case by auto
next
  case (Cons d ds)
  show ?case
  proof (cases "to_datetime d")
    case (Inl e)
    then have "\<not> (valid_date d \<and> in_bounds (toordinal d))"
      by (auto simp: to_datetime_def split: if_splits)
    with Inl show ?thesis by (auto simp: ebind_def)
  next
    case (Inr t)
    then have t: "valid_date d" "in_bounds (toordinal d)" "t = d"
      by (simp_all add: to_datetime_Inr)
    show ?thesis
    proof (cases "to_datetime_series ds")
      case (Inl e)
      then have "\<not> (\<forall>d \<in> set ds. valid_date d \<and> in_bounds (toordinal d))"
        using Cons.IH [of ds] by auto
      with Inl Inr show ?thesis by (auto simp: ebind_def)
    next
      case r: (Inr ts')
      then have "(\<forall>d \<in> set ds. valid_date d \<and> in_bounds (toordinal d))" "ts' = ds"
        using Cons.IH [of ts'] by auto
      with r Inr t show ?thesis by (auto simp: ebind_def)
    qed
  qed
qed

lemma time_diff_column_Inr:
  "time_diff_column D df = Inr tds \<longleftrightarrow>
     dates_ok D df \<and> tds = map (\<lambda>r. toordinal D - toordinal (col_datetime r)) df"
proof (cases "to_datetime D")
  case (Inl e)
  then have "\<not> (valid_date D \<and> in_bounds (toordinal D))"
    by (auto simp: to_datetime_def split: if_splits)
  with Inl show ?thesis by (auto simp: time_diff_column_def ebind_def dates_ok_def)
next
  case (Inr t)
  then have t: "valid_date D" "in_bounds (toordinal D)" "t = D"
    by (simp_all add: to_datetime_Inr)
  show ?thesis
  proof (cases "to_datetime_series (map col_datetime df)")
    case (Inl e)
    then have "\<not> (\<forall>d \<in> set (map col_datetime df). valid_date d \<and> in_bounds (toordinal d))"
      using to_datetime_series_Inr [of "map col_datetime df" "map col_datetime df"] by auto
    with Inl Inr show ?thesis by (auto simp: time_diff_column_def ebind_def dates_ok_def)
  next
    case r: (Inr ts)
    then have "(\<forall>d \<in> set (map col_datetime df). valid_date d \<and> in_bounds (toordinal d))"
      "ts = map col_datetime df"
      using to_datetime_series_Inr [of "map col_datetime df" ts] by auto
    with r Inr t show ?thesis
      by (auto simp: time_diff_column_def ebind_def dates_ok_def comp_def)
  qed
qed

lemma sort_values_head:
  assumes "sorts_keys srt (map snd df)" "df \<noteq> []"
  shows "\<exists>i rest. sort_values srt df = (df ! i) # rest \<and> i < length df
           \<and> (\<forall>j < length df. snd (df ! i) \<le> snd (df ! j))
           \<and> (\<exists>is. srt (map snd df) = i # is)"
proof -
  define ks where "ks = map snd df"
  have len: "length (srt ks) = length ks"
    and so: "sorted (map (\<lambda>i. ks ! i) (srt ks))"
    using assms(1) by (simp_all add: sorts_keys_def ks_def)
  have "set (srt ks) = set [0..<length ks]"
    using assms(1) by (simp add: sorts_keys_def ks_def)
  then have st: "set (srt ks) = {..<length ks}"
    by (simp add: atLeast0LessThan)
  have "srt ks \<noteq> []" using len assms(2) by (auto simp: ks_def)
  then obtain i "is" where idx: "srt ks = i # is" by (cases "srt ks") auto
  have i: "i < length df" using st idx by (auto simp: ks_def)
  have "snd (df ! i) \<le> snd (df ! j)" if "j < length df" for j
  proof -
    have "j \<in> set (srt ks)" using st that by (simp add: ks_def)
    then have "j = i \<or> j \<in> set is" using idx by simp
    then have "ks ! i \<le> ks ! j"
      using so idx by auto
    then show ?thesis using i that by (simp add: ks_def)
  qed
  then show ?thesis using idx i by (auto simp: sort_values_def ks_def)
qed

lemma prefer_sentinel_subset: "set (prefer_sentinel df) \<subseteq> set df"
  by (auto simp: prefer_sentinel_def)

lemma prefer_sentinel_nonempty: "df \<noteq> [] \<Longrightarrow> prefer_sentinel df \<noteq> []"
  by (auto simp: prefer_sentinel_def filter_empty_conv)

lemma prefer_sentinel_all:
  "\<exists>r \<in> set df. sentinel r \<Longrightarrow> \<forall>r \<in> set (prefer_sentinel df). sentinel r"
  by (auto simp: prefer_sentinel_def)

lemma containing_rows_iff:
  "r \<in> set (containing_rows items latitude longitude) \<longleftrightarrow>
     (\<exists>it \<in> set items. r = item_row it \<and> contains_sample_point latitude longitude (item_row it))"
  by (auto simp: containing_rows_def)

lemma select_best_item_head:
  assumes "sorts_keys srt (map snd (survivors items D latitude longitude))"
    and "containing_rows items latitude longitude \<noteq> []"
    and "dates_ok D (containing_rows items latitude longitude)"
  shows "\<exists>i < length (survivors items D latitude longitude).
       (\<forall>j < length (survivors items D latitude longitude).
          snd (survivors items D latitude longitude ! i)
            \<le> snd (survivors items D latitude longitude ! j))
     \<and> (\<exists>is. srt (map snd (survivors items D latitude longitude)) = i # is)
     \<and> select_best_item srt items D latitude longitude =
         Inr (Selected (col_item_obj (fst (survivors items D latitude longitude ! i)))
               (col_platform (fst (survivors items D latitude longitude ! i)))
               (isoformat (col_datetime (fst (survivors items D latitude longitude ! i)))))"
proof -
  let ?rows = "containing_rows items latitude longitude"
  let ?tds = "map (\<lambda>r. toordinal D - toordinal (col_datetime r)) ?rows"
  define df where "df = survivors items D latitude longitude"
  have dfeq: "prefer_sentinel (zip ?rows ?tds) = df"
    by (simp add: df_def survivors_def Let_def)
  have td: "time_diff_column D ?rows = Inr ?tds"
    using assms(3) by (simp add: time_diff_column_Inr)
  have ne: "df \<noteq> []"
    unfolding dfeq [symmetric] using assms(2)
    by (intro prefer_sentinel_nonempty) (cases ?rows; simp)
  have sk: "sorts_keys srt (map snd df)" using assms(1) by (simp add: df_def)
  from sort_values_head [OF sk ne]
  obtain i rest "is" where h: "sort_values srt df = (df ! i) # rest" "i < length df"
    "\<forall>j < length df. snd (df ! i) \<le> snd (df ! j)" "srt (map snd df) = i # is" by blast
  have items: "items \<noteq> []" using assms(2) by (auto simp: containing_rows_def)
  have iso: "strftime ''%Y-%m-%d'' d = isoformat d" for d
    by (simp add: isoformat_def directive_def)
  have "select_best_item srt items D latitude longitude =
         Inr (Selected (col_item_obj (fst (df ! i))) (col_platform (fst (df ! i)))
               (isoformat (col_datetime (fst (df ! i)))))"
    using items assms(2) h(1)
    by (simp add: select_best_item_def Let_def td ebind_def dfeq iso del: strftime.simps)
  with h show ?thesis unfolding df_def by blast
qed

lemma survivors_subset:
  assumes "r \<in> set (survivors items D latitude longitude)"
  shows "fst r \<in> set (containing_rows items latitude longitude)
         \<and> snd r = toordinal D - toordinal (col_datetime (fst r))"
proof -
  let ?rows = "containing_rows items latitude longitude"
  have "r \<in> set (zip ?rows (map (\<lambda>r. toordinal D - toordinal (col_datetime r)) ?rows))"
    using assms prefer_sentinel_subset unfolding survivors_def Let_def by blast
  then show ?thesis by (auto simp: zip_map2 zip_same)
qed

lemma survivors_item:
  assumes "r \<in> set (survivors items D latitude longitude)"
  shows "col_item_obj (fst r) \<in> set items
    \<and> fst r = item_row (col_item_obj (fst r))
    \<and> contains_sample_point latitude longitude (fst r)
    \<and> snd r = toordinal D - toordinal (dt_date (item_datetime (col_item_obj (fst r))))"
proof -
  from survivors_subset [OF assms] obtain it where
    "it \<in> set items" "fst r = item_row it" "contains_sample_point latitude longitude (item_row it)"
    "snd r = toordinal D - toordinal (col_datetime (fst r))"
    by (auto simp: containing_rows_iff)
  then show ?thesis by (simp add: item_row_def)
qed

lemma survivors_sentinel:
  assumes "c \<in> set items" "contains_sample_point latitude longitude (item_row c)"
    "is_sentinel (platform c)" "r \<in> set (survivors items D latitude longitude)"
  shows "sentinel r"
proof -
  let ?rows = "containing_rows items latitude longitude"
  let ?z = "zip ?rows (map (\<lambda>r. toordinal D - toordinal (col_datetime r)) ?rows)"
  have "item_row c \<in> set ?rows" using assms(1,2) by (auto simp: containing_rows_iff)
  then have "(item_row c, toordinal D - toordinal (col_datetime (item_row c))) \<in> set ?z"
    by (auto simp: zip_map2 zip_same)
  moreover have "sentinel (item_row c, toordinal D - toordinal (col_datetime (item_row c)))"
    using assms(3) by (simp add: sentinel_def item_row_def)
  ultimately have "\<exists>r \<in> set ?z. sentinel r" by blast
  from prefer_sentinel_all [OF this] assms(4) show ?thesis
    by (simp add: survivors_def Let_def)
qed

lemma select_best_item_Inr:
  assumes "select_best_item srt items D latitude longitude = Inr (Selected it p s)"
  shows "containing_rows items latitude longitude \<noteq> []
         \<and> dates_ok D (containing_rows items latitude longitude)"
proof -
  let ?rows = "containing_rows items latitude longitude"
  have i: "items \<noteq> []" using assms by (auto simp: select_best_item_def)
  have r: "?rows \<noteq> []" using assms i by (auto simp: select_best_item_def Let_def)
  obtain tds where "time_diff_column D ?rows = Inr tds"
    using assms i r by (cases "time_diff_column D ?rows") (auto simp: select_best_item_def Let_def ebind_def)
  then show ?thesis using r by (simp add: time_diff_column_Inr)
qed

lemma select_best_item_Selected:
  assumes "sorts_keys srt (map snd (survivors items D latitude longitude))"
    and "select_best_item srt items D latitude longitude = Inr (Selected it p s)"
  shows "\<exists>r \<in> set (survivors items D latitude longitude).
           it = col_item_obj (fst r) \<and> p = platform it
           \<and> s = isoformat (dt_date (item_datetime it))
           \<and> (\<forall>q \<in> set (survivors items D latitude longitude). snd r \<le> snd q)"
proof -
  let ?df = "survivors items D latitude longitude"
  from select_best_item_Inr [OF assms(2)]
  have "containing_rows items latitude longitude \<noteq> []"
    "dates_ok D (containing_rows items latitude longitude)" by simp_all
  from select_best_item_head [OF assms(1) this]
  obtain i where i: "i < length ?df" "\<forall>j < length ?df. snd (?df ! i) \<le> snd (?df ! j)"
    "select_best_item srt items D latitude longitude =
         Inr (Selected (col_item_obj (fst (?df ! i))) (col_platform (fst (?df ! i)))
               (isoformat (col_datetime (fst (?df ! i)))))" by blast
  have m: "?df ! i \<in> set ?df" using i(1) by simp
  have e: "it = col_item_obj (fst (?df ! i))" "p = col_platform (fst (?df ! i))"
    "s = isoformat (col_datetime (fst (?df ! i)))"
    using assms(2) i(3) by simp_all
  from survivors_item [OF m] have fr: "fst (?df ! i) = item_row it" using e(1) by simp
  have "p = col_platform (item_row it)" "s = isoformat (col_datetime (item_row it))"
    using e(2,3) unfolding fr by simp_all
  then have "p = platform it" "s = isoformat (dt_date (item_datetime it))"
    by (simp_all add: item_row_def)
  moreover have "\<forall>q \<in> set ?df. snd (?df ! i) \<le> snd q"
    using i(2) by (metis in_set_conv_nth)
  ultimately show ?thesis using m e(1) by blast
qed

section \<open>The sample data, evaluated\<close>

lemma stable_argsort_sorts: "sorts_keys stable_argsort ks"
  unfolding sorts_keys_def stable_argsort_def
  by (auto simp: sorted_sort_key)

lemma stable_argsort_keeps_ties: "keeps_ties stable_argsort ks"
  unfolding keeps_ties_def stable_argsort_def by (simp add: sort_key_stable)

lemma aquicksort_small:
  "aquicksort [2] = [0]" "aquicksort [5] = [0]" "aquicksort [2, 0] = [1, 0]"
  "aquicksort [2, 2] = [0, 1]" "aquicksort [- 5, 0] = [0, 1]"
  by code_simp+

lemma aquicksort_sorts_small:
  "sorts_keys aquicksort [2]" "sorts_keys aquicksort [5]" "sorts_keys aquicksort [2, 0]"
  "sorts_keys aquicksort [2, 2]" "sorts_keys aquicksort [- 5, 0]"
  by (auto simp: sorts_keys_def aquicksort_small)


lemma item_row_simps:
  "col_datetime (item_row it) = dt_date (item_datetime it)"
  "col_platform (item_row it) = platform it"
  "col_item_obj (item_row it) = it"
  by (simp_all add: item_row_def)

lemma sentinel_item_row: "sentinel (item_row it, k) \<longleftrightarrow> is_sentinel (platform it)"
  by (simp add: sentinel_def item_row_def)

lemma contains_item_row:
  "contains_sample_point latitude longitude (item_row it) \<longleftrightarrow>
     min_lat (bbox it) < latitude \<and> latitude < max_lat (bbox it)
     \<and> min_long (bbox it) < longitude \<and> longitude < max_long (bbox it)"
  by (auto simp: contains_sample_point_def item_row_def)

lemmas scene_defs = scene_a_def scene_a_later_def scene_b_def scene_c_def scene_edge_def
  scene_after_def scene_on_day_def box_around_def box_away_def box_edge_def
  farm_lat_def farm_long_def sample_date_def

lemmas str_eval = is_sentinel_def str_lower_def lower_char_def

lemma sent_eval:
  "is_sentinel ''Sentinel-2A''" "is_sentinel ''Sentinel-2B''" "\<not> is_sentinel ''landsat-8''"
  by (simp_all add: str_eval)

lemma scene_platforms:
  "is_sentinel (platform scene_a)" "is_sentinel (platform scene_a_later)"
  "\<not> is_sentinel (platform scene_b)" "is_sentinel (platform scene_c)"
  "is_sentinel (platform scene_edge)" "is_sentinel (platform scene_after)"
  "is_sentinel (platform scene_on_day)"
  by (simp_all add: scene_defs sent_eval)

lemma scene_contains:
  "contains_sample_point farm_lat farm_long (item_row scene_a)"
  "contains_sample_point farm_lat farm_long (item_row scene_a_later)"
  "contains_sample_point farm_lat farm_long (item_row scene_b)"
  "\<not> contains_sample_point farm_lat farm_long (item_row scene_c)"
  "\<not> contains_sample_point farm_lat farm_long (item_row scene_edge)"
  "contains_sample_point farm_lat farm_long (item_row scene_after)"
  "contains_sample_point farm_lat farm_long (item_row scene_on_day)"
  by (simp_all add: contains_item_row scene_defs)

lemma scene_time_diff:
  "toordinal sample_date - toordinal (dt_date (item_datetime scene_a)) = 2"
  "toordinal sample_date - toordinal (dt_date (item_datetime scene_a_later)) = 2"
  "toordinal sample_date - toordinal (dt_date (item_datetime scene_b)) = 0"
  "toordinal sample_date - toordinal (dt_date (item_datetime scene_after)) = - 5"
  "toordinal sample_date - toordinal (dt_date (item_datetime scene_on_day)) = 0"
  by (simp_all add: scene_defs ord_eval)

lemma scene_dates_ok:
  "valid_date sample_date \<and> in_bounds (toordinal sample_date)"
  "valid_date (dt_date (item_datetime scene_a)) \<and> in_bounds (toordinal (dt_date (item_datetime scene_a)))"
  "valid_date (dt_date (item_datetime scene_a_later)) \<and> in_bounds (toordinal (dt_date (item_datetime scene_a_later)))"
  "valid_date (dt_date (item_datetime scene_b)) \<and> in_bounds (toordinal (dt_date (item_datetime scene_b)))"
  "valid_date (dt_date (item_datetime scene_after)) \<and> in_bounds (toordinal (dt_date (item_datetime scene_after)))"
  "valid_date (dt_date (item_datetime scene_on_day)) \<and> in_bounds (toordinal (dt_date (item_datetime scene_on_day)))"
  by (simp_all add: scene_defs ord_eval)

lemmas scene_eval = item_row_simps sentinel_item_row scene_platforms scene_contains
  scene_time_diff scene_dates_ok

lemma rows_abc:
  "containing_rows [scene_a, scene_b, scene_c] farm_lat farm_long = [item_row scene_a, item_row scene_b]"
  by (simp add: containing_rows_def scene_eval)

lemma survivors_abc:
  "survivors [scene_a, scene_b, scene_c] sample_date farm_lat farm_long = [(item_row scene_a, 2)]"
  by (simp add: survivors_def rows_abc prefer_sentinel_def scene_eval)

lemma dates_abc: "dates_ok sample_date (containing_rows [scene_a, scene_b, scene_c] farm_lat farm_long)"
  by (simp add: dates_ok_def rows_abc scene_eval)

lemma sel_abc: "select_best_item aquicksort [scene_a, scene_b, scene_c] sample_date farm_lat farm_long
   = Inr (Selected scene_a ''Sentinel-2A'' ''2022-08-29'')"
proof -
  have td: "time_diff_column sample_date [item_row scene_a, item_row scene_b] = Inr [2, 0]"
    using dates_abc by (simp add: time_diff_column_Inr rows_abc scene_eval)
  have iso: "strftime ''%Y-%m-%d'' d = isoformat d" for d
    by (simp add: isoformat_def directive_def)
  have i: "isoformat (dt_date (item_datetime scene_a)) = ''2022-08-29''"
    by (simp add: scene_a_def fmt_eval)
  have p: "platform scene_a = ''Sentinel-2A''" by (simp add: scene_a_def)
  show ?thesis
    by (simp add: select_best_item_def Let_def rows_abc td ebind_def prefer_sentinel_def
        scene_eval sent_eval sort_values_def aquicksort_small iso i p del: strftime.simps)
qed

lemma survivors_tie:
  "survivors [scene_a, scene_a_later] sample_date farm_lat farm_long
     = [(item_row scene_a, 2), (item_row scene_a_later, 2)]"
  by (simp add: survivors_def containing_rows_def prefer_sentinel_def scene_eval)


section \<open>The claims about the scene selector\<close>

text \<open>
  Claim C3, as the specification states it: for every candidate list, the empty list
  included, in which no candidate strictly contains the point, the selector reports
  "no match" and never raises. On the empty list the frame has no columns, and reading
  the column \<^verbatim>\<open>min_lat\<close> raises AttributeError (the driver calls the selector only when
  the catalog returned at least one item).
\<close>

theorem select_best_item_empty_counterexample:
  "select_best_item aquicksort [] sample_date farm_lat farm_long = Inl AttributeError
   \<and> select_best_item aquicksort [] sample_date farm_lat farm_long \<noteq> Inr NoMatch"
  by (simp add: select_best_item_def)

text \<open>
  Claim C3, amended: for every non-empty candidate list in which no candidate strictly
  contains the point, the selector returns the "no match" triple
  \<^verbatim>\<open>(nan, nan, nan)\<close> and does not raise, whatever the target date and the sort.
\<close>

theorem select_best_item_no_match:
  assumes "items \<noteq> []"
    and "\<forall>it \<in> set items. \<not> contains_sample_point latitude longitude (item_row it)"
  shows "select_best_item argsort items date' latitude longitude = Inr NoMatch"
proof -
  have "containing_rows items latitude longitude = []"
    using assms(2) by (simp add: containing_rows_def filter_empty_conv)
  with assms(1) show ?thesis by (simp add: select_best_item_def)
qed

text \<open>Witness for C3: two scenes, one away from the point and one with the point on its edge.\<close>

theorem select_best_item_no_match_witness:
  "[scene_c, scene_edge] \<noteq> []
   \<and> \<not> contains_sample_point farm_lat farm_long (item_row scene_c)
   \<and> \<not> contains_sample_point farm_lat farm_long (item_row scene_edge)
   \<and> select_best_item aquicksort [scene_c, scene_edge] sample_date farm_lat farm_long
       = Inr NoMatch"
proof -
  have a: "[scene_c, scene_edge] \<noteq> []" by simp
  have b: "\<forall>it \<in> set [scene_c, scene_edge]. \<not> contains_sample_point farm_lat farm_long (item_row it)"
    by (simp add: scene_contains)
  from select_best_item_no_match [OF a b, of aquicksort sample_date] a show ?thesis
    by (simp add: scene_contains)
qed

text \<open>
  Claim C6: the containment test is strict on all four bounds
  (\<open>min_lat < lat < max_lat\<close> and \<open>min_long < long < max_long\<close>), so a candidate with the
  point exactly on an edge of its bounding box is discarded: its row is not in the
  filtered frame and the selector never returns it. (The sort is any function that sorts
  the \<^verbatim>\<open>time_diff\<close> column of the call.)
\<close>

theorem containment_is_strict:
  assumes "sorts_keys argsort (map snd (survivors items date' latitude longitude))"
  shows "(contains_sample_point latitude longitude (item_row c) \<longleftrightarrow>
            min_lat (bbox c) < latitude \<and> latitude < max_lat (bbox c)
            \<and> min_long (bbox c) < longitude \<and> longitude < max_long (bbox c))
    \<and> (latitude = min_lat (bbox c) \<or> latitude = max_lat (bbox c)
        \<or> longitude = min_long (bbox c) \<or> longitude = max_long (bbox c)
        \<longrightarrow> item_row c \<notin> set (containing_rows items latitude longitude)
            \<and> (\<forall>p s. select_best_item argsort items date' latitude longitude
                        \<noteq> Inr (Selected c p s)))"
proof -
  have iff: "contains_sample_point latitude longitude (item_row c) \<longleftrightarrow>
            min_lat (bbox c) < latitude \<and> latitude < max_lat (bbox c)
            \<and> min_long (bbox c) < longitude \<and> longitude < max_long (bbox c)"
    by (rule contains_item_row)
  have sel: "contains_sample_point latitude longitude (item_row c)"
    if "select_best_item argsort items date' latitude longitude = Inr (Selected c p s)" for p s
  proof -
    from select_best_item_Selected [OF assms that]
    obtain r where r: "r \<in> set (survivors items date' latitude longitude)"
      "c = col_item_obj (fst r)" by blast
    from survivors_item [OF r(1)] r(2) show ?thesis by simp
  qed
  have "item_row c \<notin> set (containing_rows items latitude longitude)
            \<and> (\<forall>p s. select_best_item argsort items date' latitude longitude
                        \<noteq> Inr (Selected c p s))"
    if "\<not> contains_sample_point latitude longitude (item_row c)"
    using that sel by (auto simp: containing_rows_def)
  moreover have "\<not> contains_sample_point latitude longitude (item_row c)"
    if "latitude = min_lat (bbox c) \<or> latitude = max_lat (bbox c)
        \<or> longitude = min_long (bbox c) \<or> longitude = max_long (bbox c)"
    using that unfolding iff by auto
  ultimately show ?thesis using iff by blast
qed

lemma survivors_a_edge:
  "survivors [scene_a, scene_edge] sample_date farm_lat farm_long = [(item_row scene_a, 2)]"
  by (simp add: survivors_def containing_rows_def prefer_sentinel_def scene_eval)

text \<open>
  Witness for C6: the point lies on the western edge of \<open>scene_edge\<close>; the library's sort
  sorts the one key that is left.
\<close>

theorem containment_is_strict_witness:
  "sorts_keys aquicksort (map snd (survivors [scene_a, scene_edge] sample_date farm_lat farm_long))
   \<and> farm_long = min_long (bbox scene_edge)
   \<and> \<not> contains_sample_point farm_lat farm_long (item_row scene_edge)
   \<and> item_row scene_edge \<notin> set (containing_rows [scene_a, scene_edge] farm_lat farm_long)
   \<and> (\<forall>p s. select_best_item aquicksort [scene_a, scene_edge] sample_date farm_lat farm_long
              \<noteq> Inr (Selected scene_edge p s))"
proof -
  have e: "farm_long = min_long (bbox scene_edge)"
    by (simp add: scene_defs)
  have k: "sorts_keys aquicksort
             (map snd (survivors [scene_a, scene_edge] sample_date farm_lat farm_long))"
    by (simp add: survivors_a_edge aquicksort_sorts_small)
  from containment_is_strict [OF k, of scene_edge] e k
  show ?thesis by (simp add: scene_contains)
qed

text \<open>
  Claim C7: if at least one candidate that contains the point has a platform name with
  the substring "sentinel" (case-insensitive), every other platform is discarded before
  the choice by time: every row of the frame that is sorted is a Sentinel row, whatever
  the selector returns is a Sentinel scene that contains the point, it never reports
  "no match", and it does return such a scene when the dates are ones pandas converts
  (otherwise it raises).
\<close>

theorem sentinel_preferred:
  assumes "sorts_keys argsort (map snd (survivors items date' latitude longitude))"
    and "c \<in> set items" "contains_sample_point latitude longitude (item_row c)"
    and "is_sentinel (platform c)"
  shows "(\<forall>r \<in> set (survivors items date' latitude longitude). is_sentinel (col_platform (fst r)))
    \<and> (\<forall>it p s. select_best_item argsort items date' latitude longitude = Inr (Selected it p s)
          \<longrightarrow> it \<in> set items \<and> p = platform it \<and> is_sentinel (platform it)
              \<and> contains_sample_point latitude longitude (item_row it))
    \<and> select_best_item argsort items date' latitude longitude \<noteq> Inr NoMatch
    \<and> (dates_ok date' (containing_rows items latitude longitude)
        \<longrightarrow> (\<exists>it \<in> set items. is_sentinel (platform it)
              \<and> select_best_item argsort items date' latitude longitude
                  = Inr (Selected it (platform it) (isoformat (dt_date (item_datetime it))))))"
proof -
  let ?df = "survivors items date' latitude longitude"
  let ?rows = "containing_rows items latitude longitude"
  have all: "\<forall>r \<in> set ?df. is_sentinel (col_platform (fst r))"
    using survivors_sentinel [OF assms(2-4)] by (auto simp: sentinel_def)
  have ne: "?rows \<noteq> []"
    using assms(2,3) by (auto simp: containing_rows_def filter_empty_conv)
  have ret: "it \<in> set items \<and> p = platform it \<and> is_sentinel (platform it)
              \<and> contains_sample_point latitude longitude (item_row it)"
    if "select_best_item argsort items date' latitude longitude = Inr (Selected it p s)"
    for it p s
  proof -
    from select_best_item_Selected [OF assms(1) that]
    obtain r where r: "r \<in> set ?df" "it = col_item_obj (fst r)" "p = platform it" by blast
    from survivors_item [OF r(1)] r(2)
    have i: "it \<in> set items" "fst r = item_row it"
      "contains_sample_point latitude longitude (item_row it)" by simp_all
    have "is_sentinel (platform it)" using all r(1) i(2) by (auto simp: item_row_simps)
    with i r(3) show ?thesis by simp
  qed
  have nm: "select_best_item argsort items date' latitude longitude \<noteq> Inr NoMatch"
  proof -
    have "items \<noteq> []" using assms(2) by auto
    then show ?thesis using ne
      by (auto simp: select_best_item_def Let_def ebind_def split: sum.splits list.splits)
  qed
  have ex: "\<exists>it \<in> set items. is_sentinel (platform it)
              \<and> select_best_item argsort items date' latitude longitude
                  = Inr (Selected it (platform it) (isoformat (dt_date (item_datetime it))))"
    if ok: "dates_ok date' ?rows"
  proof -
    from select_best_item_head [OF assms(1) ne ok]
    obtain i where i: "i < length ?df"
      "select_best_item argsort items date' latitude longitude =
         Inr (Selected (col_item_obj (fst (?df ! i))) (col_platform (fst (?df ! i)))
               (isoformat (col_datetime (fst (?df ! i)))))" by blast
    from ret [OF i(2)] have "col_item_obj (fst (?df ! i)) \<in> set items"
      "col_platform (fst (?df ! i)) = platform (col_item_obj (fst (?df ! i)))"
      "is_sentinel (platform (col_item_obj (fst (?df ! i))))" by simp_all
    moreover have "col_datetime (fst (?df ! i))
                     = dt_date (item_datetime (col_item_obj (fst (?df ! i))))"
    proof -
      have "?df ! i \<in> set ?df" using i(1) by simp
      from survivors_item [OF this] have "fst (?df ! i) = item_row (col_item_obj (fst (?df ! i)))"
        by simp
      then show ?thesis by (metis item_row_simps(1))
    qed
    ultimately show ?thesis using i(2) by auto
  qed
  from all ret nm ex show ?thesis by blast
qed

text \<open>
  Witness for C7: the documented example. B (Landsat) is on the sample day and A
  (Sentinel) two days before; C (Sentinel) does not contain the point. A is returned.
\<close>

theorem sentinel_preferred_witness:
  "sorts_keys aquicksort
     (map snd (survivors [scene_a, scene_b, scene_c] sample_date farm_lat farm_long))
   \<and> scene_a \<in> set [scene_a, scene_b, scene_c]
   \<and> contains_sample_point farm_lat farm_long (item_row scene_a)
   \<and> is_sentinel (platform scene_a)
   \<and> \<not> is_sentinel (platform scene_b)
   \<and> dates_ok sample_date (containing_rows [scene_a, scene_b, scene_c] farm_lat farm_long)
   \<and> (\<exists>it \<in> set [scene_a, scene_b, scene_c]. is_sentinel (platform it)
          \<and> select_best_item aquicksort [scene_a, scene_b, scene_c] sample_date farm_lat farm_long
              = Inr (Selected it (platform it) (isoformat (dt_date (item_datetime it)))))
   \<and> select_best_item aquicksort [scene_a, scene_b, scene_c] sample_date farm_lat farm_long
       = Inr (Selected scene_a ''Sentinel-2A'' ''2022-08-29'')"
proof -
  have m: "scene_a \<in> set [scene_a, scene_b, scene_c]" by simp
  have k: "sorts_keys aquicksort
             (map snd (survivors [scene_a, scene_b, scene_c] sample_date farm_lat farm_long))"
    by (simp add: survivors_abc aquicksort_sorts_small)
  from sentinel_preferred [OF k m scene_contains(1) scene_platforms(1)] dates_abc
  have "\<exists>it \<in> set [scene_a, scene_b, scene_c]. is_sentinel (platform it)
          \<and> select_best_item aquicksort [scene_a, scene_b, scene_c] sample_date farm_lat farm_long
              = Inr (Selected it (platform it) (isoformat (dt_date (item_datetime it))))"
    by blast
  then show ?thesis
    using k m scene_contains(1) scene_platforms(1,3) dates_abc sel_abc
    by blast
qed

lemma list_all2_filter_rel:
  "list_all2 R xs ys \<Longrightarrow> (\<And>x y. R x y \<Longrightarrow> P x = Q y) \<Longrightarrow>
     list_all2 R (filter P xs) (filter Q ys)"
  by (induction rule: list_all2_induct) auto

lemma same_day_rows:
  assumes "list_all2 same_day items items'"
  shows "list_all2 same_row (containing_rows items latitude longitude)
           (containing_rows items' latitude longitude)"
proof -
  have "list_all2 (\<lambda>a b. same_row (item_row a) (item_row b)) items items'"
    using assms by (rule list_all2_mono) (simp add: same_row_def item_row_def same_day_def)
  then have "list_all2 same_row (map item_row items) (map item_row items')"
    by (simp add: list_all2_map1 list_all2_map2)
  then show ?thesis
    unfolding containing_rows_def
    by (rule list_all2_filter_rel) (simp add: contains_sample_point_def same_row_def)
qed

lemma same_row_keys:
  assumes "list_all2 same_row rows rows'"
  shows "map col_datetime rows' = map col_datetime rows"
  using assms by (induction rule: list_all2_induct) (simp_all add: same_row_def)

lemma same_day_survivors:
  assumes "list_all2 same_day items items'"
  shows "list_all2 same_timed_row (survivors items D latitude longitude)
           (survivors items' D latitude longitude)"
proof -
  let ?rows = "containing_rows items latitude longitude"
  let ?rows' = "containing_rows items' latitude longitude"
  let ?k = "\<lambda>r. toordinal D - toordinal (col_datetime r)"
  have r: "list_all2 same_row ?rows ?rows'" using assms by (rule same_day_rows)
  have z: "list_all2 same_timed_row (zip rs (map ?k rs)) (zip rs' (map ?k rs'))"
    if "list_all2 same_row rs rs'" for rs rs'
    using that by (induction rule: list_all2_induct) (simp_all add: same_timed_row_def same_row_def)
  have s: "sentinel x = sentinel y" if "same_timed_row x y" for x y
    using that by (simp add: sentinel_def same_timed_row_def same_row_def)
  have p: "list_all2 same_timed_row (prefer_sentinel xs) (prefer_sentinel ys)"
    if h: "list_all2 same_timed_row xs ys" for xs ys
  proof -
    have f: "list_all2 same_timed_row (filter sentinel xs) (filter sentinel ys)"
      using h by (rule list_all2_filter_rel) (rule s)
    have "(filter sentinel xs = []) = (filter sentinel ys = [])"
      using list_all2_lengthD [OF f] by auto
    then have "(\<exists>r \<in> set xs. sentinel r) = (\<exists>r \<in> set ys. sentinel r)"
      by (auto simp: filter_empty_conv)
    then show ?thesis using h f by (simp add: prefer_sentinel_def)
  qed
  show ?thesis unfolding survivors_def Let_def by (rule p, rule z, rule r)
qed

lemma same_timed_keys:
  "list_all2 same_timed_row xs ys \<Longrightarrow> map snd ys = map snd xs"
  by (induction rule: list_all2_induct) (simp_all add: same_timed_row_def)

lemma same_day_dates_ok:
  assumes "list_all2 same_day items items'"
    and "dates_ok D (containing_rows items latitude longitude)"
  shows "dates_ok D (containing_rows items' latitude longitude)"
proof -
  have "map col_datetime (containing_rows items' latitude longitude)
          = map col_datetime (containing_rows items latitude longitude)"
    using same_day_rows [OF assms(1)] by (rule same_row_keys)
  then have "col_datetime ` set (containing_rows items' latitude longitude)
          = col_datetime ` set (containing_rows items latitude longitude)"
    by (metis set_map)
  then show ?thesis using assms(2) unfolding dates_ok_def by (metis (no_types, lifting) imageE imageI)
qed

text \<open>
  Claim C10: the selector compares acquisition times by calendar day only. The key the
  surviving candidates are sorted by is the number of days from the candidate's date to
  the target date, so candidates of one calendar day have equal keys; the candidate
  returned is the one the sort puts first on these keys; and moving the candidates to
  other times of day changes neither the keys, nor the position of the candidate that is
  returned, nor the platform and the date returned with it.
\<close>

theorem time_of_day_is_ignored:
  assumes "list_all2 same_day items items'"
    and "sorts_keys argsort (map snd (survivors items D latitude longitude))"
    and "containing_rows items latitude longitude \<noteq> []"
    and "dates_ok D (containing_rows items latitude longitude)"
  shows "map snd (survivors items' D latitude longitude)
           = map snd (survivors items D latitude longitude)
    \<and> (\<forall>r \<in> set (survivors items D latitude longitude).
         \<forall>q \<in> set (survivors items D latitude longitude).
           dt_date (item_datetime (col_item_obj (fst r)))
             = dt_date (item_datetime (col_item_obj (fst q))) \<longrightarrow> snd r = snd q)
    \<and> (\<exists>i < length (survivors items D latitude longitude).
          hd (argsort (map snd (survivors items D latitude longitude))) = i
        \<and> select_best_item argsort items D latitude longitude =
            Inr (Selected (col_item_obj (fst (survivors items D latitude longitude ! i)))
                  (col_platform (fst (survivors items D latitude longitude ! i)))
                  (isoformat (col_datetime (fst (survivors items D latitude longitude ! i)))))
        \<and> select_best_item argsort items' D latitude longitude =
            Inr (Selected (col_item_obj (fst (survivors items' D latitude longitude ! i)))
                  (col_platform (fst (survivors items D latitude longitude ! i)))
                  (isoformat (col_datetime (fst (survivors items D latitude longitude ! i)))))
        \<and> same_day (col_item_obj (fst (survivors items D latitude longitude ! i)))
             (col_item_obj (fst (survivors items' D latitude longitude ! i))))"
proof -
  let ?df = "survivors items D latitude longitude"
  let ?df' = "survivors items' D latitude longitude"
  have rel: "list_all2 same_timed_row ?df ?df'" using assms(1) by (rule same_day_survivors)
  have keys: "map snd ?df' = map snd ?df" using rel by (rule same_timed_keys)
  have len: "length ?df' = length ?df" using rel by (simp add: list_all2_lengthD)
  have ne': "containing_rows items' latitude longitude \<noteq> []"
    using list_all2_lengthD [OF same_day_rows [OF assms(1), of latitude longitude]] assms(3) by auto
  have ok': "dates_ok D (containing_rows items' latitude longitude)"
    using assms(1,4) by (rule same_day_dates_ok)
  have k': "sorts_keys argsort (map snd ?df')" using assms(2) by (simp add: keys)
  from select_best_item_head [OF assms(2-4)]
  obtain i "is" where i: "i < length ?df" "argsort (map snd ?df) = i # is"
    "select_best_item argsort items D latitude longitude =
         Inr (Selected (col_item_obj (fst (?df ! i))) (col_platform (fst (?df ! i)))
               (isoformat (col_datetime (fst (?df ! i)))))" by blast
  from select_best_item_head [OF k' ne' ok']
  obtain i' is' where i': "i' < length ?df'" "argsort (map snd ?df') = i' # is'"
    "select_best_item argsort items' D latitude longitude =
         Inr (Selected (col_item_obj (fst (?df' ! i'))) (col_platform (fst (?df' ! i')))
               (isoformat (col_datetime (fst (?df' ! i')))))" by blast
  have same: "i' = i" using i(2) i'(2) by (simp add: keys)
  have r: "same_timed_row (?df ! i) (?df' ! i)" using rel i(1) by (simp add: list_all2_nthD)
  then have c: "col_platform (fst (?df' ! i)) = col_platform (fst (?df ! i))"
    "col_datetime (fst (?df' ! i)) = col_datetime (fst (?df ! i))"
    "same_day (col_item_obj (fst (?df ! i))) (col_item_obj (fst (?df' ! i)))"
    by (simp_all add: same_timed_row_def same_row_def)
  have h: "hd (argsort (map snd ?df)) = i" using i(2) by simp
  have eq: "snd r = snd q" if "r \<in> set ?df" "q \<in> set ?df"
    "dt_date (item_datetime (col_item_obj (fst r))) = dt_date (item_datetime (col_item_obj (fst q)))"
    for r q
    using survivors_item [OF that(1)] survivors_item [OF that(2)] that(3) by simp
  have sel': "select_best_item argsort items' D latitude longitude =
         Inr (Selected (col_item_obj (fst (?df' ! i))) (col_platform (fst (?df ! i)))
               (isoformat (col_datetime (fst (?df ! i)))))"
    using i'(3) same c by simp
  from keys eq i(1) h i(3) sel' c(3) show ?thesis by blast
qed

lemma item_row_at_time:
  "item_row (at_time h m s it) = (item_row it)\<lparr>col_item_obj := at_time h m s it\<rparr>"
  by (simp add: item_row_def at_time_def)

lemma contains_item_obj:
  "contains_sample_point latitude longitude (r\<lparr>col_item_obj := x\<rparr>)
     = contains_sample_point latitude longitude r"
  by (simp add: contains_sample_point_def)

lemma sentinel_item_obj: "sentinel (r\<lparr>col_item_obj := x\<rparr>, k) = sentinel (r, k)"
  by (simp add: sentinel_def)

lemma same_day_at_time: "same_day it (at_time h m s it)"
  by (simp add: same_day_def at_time_def)

lemma survivors_tie_moved:
  "survivors [at_time 12 0 0 scene_a, at_time 0 0 0 scene_a_later] sample_date farm_lat farm_long
     = [((item_row scene_a)\<lparr>col_item_obj := at_time 12 0 0 scene_a\<rparr>, 2),
        ((item_row scene_a_later)\<lparr>col_item_obj := at_time 0 0 0 scene_a_later\<rparr>, 2)]"
  by (simp add: survivors_def containing_rows_def prefer_sentinel_def item_row_at_time
      contains_item_obj sentinel_item_obj scene_eval)

text \<open>
  Witness for C10: two scenes of 2022-08-29, at 03:05:41 and at 23:59:59, and the same
  two scenes moved to 12:00:00 and 00:00:00. The first scene is returned both times.
\<close>

theorem time_of_day_is_ignored_witness:
  "list_all2 same_day [scene_a, scene_a_later]
     [at_time 12 0 0 scene_a, at_time 0 0 0 scene_a_later]
   \<and> sorts_keys aquicksort
       (map snd (survivors [scene_a, scene_a_later] sample_date farm_lat farm_long))
   \<and> containing_rows [scene_a, scene_a_later] farm_lat farm_long \<noteq> []
   \<and> dates_ok sample_date (containing_rows [scene_a, scene_a_later] farm_lat farm_long)
   \<and> map snd (survivors [scene_a, scene_a_later] sample_date farm_lat farm_long) = [2, 2]
   \<and> dt_hour (item_datetime scene_a) = 3 \<and> dt_hour (item_datetime scene_a_later) = 23
   \<and> select_best_item aquicksort [scene_a, scene_a_later] sample_date farm_lat farm_long
       = Inr (Selected scene_a ''Sentinel-2A'' ''2022-08-29'')
   \<and> select_best_item aquicksort [at_time 12 0 0 scene_a, at_time 0 0 0 scene_a_later]
         sample_date farm_lat farm_long
       = Inr (Selected (at_time 12 0 0 scene_a) ''Sentinel-2A'' ''2022-08-29'')"
proof -
  let ?df = "survivors [scene_a, scene_a_later] sample_date farm_lat farm_long"
  let ?df' = "survivors [at_time 12 0 0 scene_a, at_time 0 0 0 scene_a_later]
                sample_date farm_lat farm_long"
  have same: "list_all2 same_day [scene_a, scene_a_later]
                [at_time 12 0 0 scene_a, at_time 0 0 0 scene_a_later]"
    by (simp add: same_day_at_time)
  have rows: "containing_rows [scene_a, scene_a_later] farm_lat farm_long
                = [item_row scene_a, item_row scene_a_later]"
    by (simp add: containing_rows_def scene_eval)
  have ne: "containing_rows [scene_a, scene_a_later] farm_lat farm_long \<noteq> []"
    by (simp add: rows)
  have ok: "dates_ok sample_date (containing_rows [scene_a, scene_a_later] farm_lat farm_long)"
    by (simp add: rows dates_ok_def scene_eval)
  have k: "sorts_keys aquicksort (map snd ?df)"
    by (simp add: survivors_tie aquicksort_sorts_small)
  from time_of_day_is_ignored [OF same k ne ok]
  obtain i where i: "hd (aquicksort (map snd ?df)) = i"
    "select_best_item aquicksort [scene_a, scene_a_later] sample_date farm_lat farm_long =
        Inr (Selected (col_item_obj (fst (?df ! i))) (col_platform (fst (?df ! i)))
              (isoformat (col_datetime (fst (?df ! i)))))"
    "select_best_item aquicksort [at_time 12 0 0 scene_a, at_time 0 0 0 scene_a_later]
         sample_date farm_lat farm_long =
        Inr (Selected (col_item_obj (fst (?df' ! i))) (col_platform (fst (?df ! i)))
              (isoformat (col_datetime (fst (?df ! i)))))"
    by blast
  have "i = 0" using i(1) by (simp add: survivors_tie aquicksort_small)
  have iso: "isoformat (dt_date (item_datetime scene_a)) = ''2022-08-29''"
    by (simp add: scene_a_def fmt_eval)
  have p: "platform scene_a = ''Sentinel-2A''" by (simp add: scene_a_def)
  have h: "dt_hour (item_datetime scene_a) = 3" "dt_hour (item_datetime scene_a_later) = 23"
    by (simp_all add: scene_defs)
  have a: "select_best_item aquicksort [scene_a, scene_a_later] sample_date farm_lat farm_long
       = Inr (Selected scene_a ''Sentinel-2A'' ''2022-08-29'')"
    using i(2) unfolding \<open>i = 0\<close> by (simp add: survivors_tie item_row_simps iso p)
  have b: "select_best_item aquicksort [at_time 12 0 0 scene_a, at_time 0 0 0 scene_a_later]
         sample_date farm_lat farm_long
       = Inr (Selected (at_time 12 0 0 scene_a) ''Sentinel-2A'' ''2022-08-29'')"
    using i(3) unfolding \<open>i = 0\<close>
    by (simp add: survivors_tie survivors_tie_moved item_row_simps iso p)
  from same k ne ok a b h show ?thesis by (simp add: survivors_tie)
qed

lemma survivors_after:
  "survivors [scene_after, scene_on_day] sample_date farm_lat farm_long
     = [(item_row scene_after, - 5), (item_row scene_on_day, 0)]"
  by (simp add: survivors_def containing_rows_def prefer_sentinel_def scene_eval)

lemma dates_after:
  "dates_ok sample_date (containing_rows [scene_after, scene_on_day] farm_lat farm_long)"
  by (simp add: dates_ok_def containing_rows_def scene_eval)

text \<open>
  Claim C1 says that the selector returns the surviving candidate with the smallest
  absolute time distance, and the docstring that it returns the closest image by time.
  The code sorts by the signed difference \<^verbatim>\<open>pd.to_datetime(date) - datetime\<close>: a scene
  dated after the target date has a negative difference and sorts first. With a scene
  five days after the sample date and a scene on the sample date, both Sentinel and
  both containing the point, the scene five days away is returned, by every sort that
  sorts the two keys.
\<close>

theorem select_best_item_farther_scene:
  assumes "sorts_keys argsort [- 5, 0]"
  shows "select_best_item argsort [scene_after, scene_on_day] sample_date farm_lat farm_long
           = Inr (Selected scene_after ''Sentinel-2A'' ''2022-09-05'')
    \<and> \<bar>toordinal sample_date - toordinal (dt_date (item_datetime scene_after))\<bar> = 5
    \<and> \<bar>toordinal sample_date - toordinal (dt_date (item_datetime scene_on_day))\<bar> = 0"
proof -
  let ?df = "survivors [scene_after, scene_on_day] sample_date farm_lat farm_long"
  have ne: "containing_rows [scene_after, scene_on_day] farm_lat farm_long \<noteq> []"
    by (simp add: containing_rows_def scene_eval)
  have k: "sorts_keys argsort (map snd ?df)" using assms by (simp add: survivors_after)
  from select_best_item_head [OF k ne dates_after]
  obtain i where i: "i < length ?df" "\<forall>j < length ?df. snd (?df ! i) \<le> snd (?df ! j)"
    "select_best_item argsort [scene_after, scene_on_day] sample_date farm_lat farm_long =
         Inr (Selected (col_item_obj (fst (?df ! i))) (col_platform (fst (?df ! i)))
               (isoformat (col_datetime (fst (?df ! i)))))" by blast
  have "i = 0"
  proof (rule ccontr)
    assume "i \<noteq> 0"
    then have "i = 1" using i(1) by (simp add: survivors_after)
    with i(2) show False by (auto simp: survivors_after)
  qed
  have iso: "isoformat (dt_date (item_datetime scene_after)) = ''2022-09-05''"
    by (simp add: scene_after_def fmt_eval)
  have p: "platform scene_after = ''Sentinel-2A''" by (simp add: scene_after_def)
  show ?thesis using i(3) unfolding \<open>i = 0\<close>
    by (simp add: survivors_after item_row_simps iso p scene_time_diff)
qed

text \<open>Witness for C1's evaluation: the library's sort sorts the two keys.\<close>

theorem select_best_item_farther_scene_witness:
  "sorts_keys aquicksort [- 5, 0]
   \<and> select_best_item aquicksort [scene_after, scene_on_day] sample_date farm_lat farm_long
       = Inr (Selected scene_after ''Sentinel-2A'' ''2022-09-05'')"
  using select_best_item_farther_scene [OF aquicksort_sorts_small(5)] aquicksort_sorts_small(5)
  by simp

text \<open>
  When no surviving candidate is dated after the target date, the signed difference is
  the absolute one, and the returned candidate is a closest one.
\<close>

lemma select_best_item_closest_in_lookback:
  assumes "sorts_keys argsort (map snd (survivors items date' latitude longitude))"
    and "select_best_item argsort items date' latitude longitude = Inr (Selected it p s)"
    and "\<forall>r \<in> set (survivors items date' latitude longitude). 0 \<le> snd r"
  shows "\<forall>r \<in> set (survivors items date' latitude longitude).
           \<bar>toordinal date' - toordinal (dt_date (item_datetime it))\<bar> \<le> \<bar>snd r\<bar>"
proof -
  from select_best_item_Selected [OF assms(1,2)]
  obtain r where r: "r \<in> set (survivors items date' latitude longitude)"
    "it = col_item_obj (fst r)"
    "\<forall>q \<in> set (survivors items date' latitude longitude). snd r \<le> snd q" by blast
  from survivors_item [OF r(1)] r(2)
  have "snd r = toordinal date' - toordinal (dt_date (item_datetime it))" by simp
  then show ?thesis using r(1,3) assms(3) by fastforce
qed













text \<open>
  On at most 16 keys the default sort never partitions: it is the insertion sort alone,
  which sorts the keys and keeps tied entries in input order.
\<close>

lemma ins_shift_ins_rev:
  "ins_shift v (rev ys @ c # R) (v ! x) 0 (length ys) = (ts', p) \<Longrightarrow>
     ts'[p := x] = rev (ins_rev v x ys) @ R"
proof (induction ys arbitrary: c R ts' p)
  case Nil
  then show ?case by (subst (asm) ins_shift.simps) auto
next
  case (Cons y ys)
  have nth: "(rev ys @ y # c # R) ! length ys = y"
    by (simp add: nth_append)
  show ?case
  proof (cases "v ! x < v ! y")
    case True
    have upd: "(rev ys @ y # c # R)[Suc (length ys) := y] = rev ys @ y # y # R"
      by (simp add: list_update_append)
    from Cons.prems True have "ins_shift v (rev ys @ y # y # R) (v ! x) 0 (length ys) = (ts', p)"
      by (subst (asm) ins_shift.simps) (simp add: nth upd)
    from Cons.IH [OF this] True show ?thesis by simp
  next
    case False
    from Cons.prems False have "ts' = rev ys @ y # c # R" "p = Suc (length ys)"
      by (subst (asm) ins_shift.simps, simp add: nth)+
    then show ?thesis using False by (simp add: list_update_append)
  qed
qed

lemma ins_loop_foldl:
  "pr + 1 = length ys + length rest \<Longrightarrow>
     ins_loop v (rev ys @ rest) 0 pr (length ys) = rev (foldl (\<lambda>a x. ins_rev v x a) ys rest)"
proof (induction rest arbitrary: ys)
  case Nil
  then show ?case by (subst ins_loop.simps) auto
next
  case (Cons x rest)
  obtain ts' p where s: "ins_shift v (rev ys @ x # rest) (v ! x) 0 (length ys) = (ts', p)"
    by (meson surj_pair)
  have e: "ts'[p := x] = rev (ins_rev v x ys) @ rest"
    by (rule ins_shift_ins_rev [OF s])
  have l: "length (ins_rev v x ys) = Suc (length ys)" for ys
    by (induction ys) auto
  have "ins_loop v (rev ys @ x # rest) 0 pr (length ys)
          = ins_loop v (rev (ins_rev v x ys) @ rest) 0 pr (length (ins_rev v x ys))"
    using Cons.prems by (subst ins_loop.simps) (simp add: nth_append s e l)
  also have "\<dots> = rev (foldl (\<lambda>a x. ins_rev v x a) (ins_rev v x ys) rest)"
    using Cons.prems by (intro Cons.IH) (simp add: l)
  finally show ?case by simp
qed

lemma aquicksort_short:
  assumes "length v \<le> 16"
  shows "aquicksort v = rev (foldl (\<lambda>a x. ins_rev v x a) [] [0..<length v])"
proof (cases "length v = 0")
  case True
  then have "v = []" by simp
  show ?thesis unfolding \<open>v = []\<close> aquicksort_def Let_def
    by (subst aquicksort_loop.simps)
      (simp add: insertion_sort_def small_quicksort_def ins_loop.simps [of "[]" "[]"])
next
  case False
  then have u: "[0..<length v] = 0 # [1..<length v]" by (simp add: upt_rec)
  have c: "\<not> length v - 1 - 0 > small_quicksort"
    using assms by (simp add: small_quicksort_def)
  have "aquicksort v = insertion_sort v [0..<length v] 0 (length v - 1)"
    unfolding aquicksort_def Let_def
    by (subst aquicksort_loop.simps) (use c in simp)
  then have "aquicksort v
               = ins_loop v (rev [0] @ [1..<length v]) 0 (length v - 1) (length [0::nat])"
    using u by (simp add: insertion_sort_def)
  also have "\<dots> = rev (foldl (\<lambda>a x. ins_rev v x a) [0] [1..<length v])"
    using False by (intro ins_loop_foldl) simp
  finally show ?thesis by (simp add: u)
qed

lemma length_ins_rev: "length (ins_rev v x ys) = Suc (length ys)"
  by (induction ys) auto

lemma set_ins_rev: "set (ins_rev v x ys) = insert x (set ys)"
  by (induction ys) auto

lemma descending_ins_rev:
  "sorted_wrt (\<lambda>a b. v ! b \<le> v ! a) ys \<Longrightarrow> sorted_wrt (\<lambda>a b. v ! b \<le> v ! a) (ins_rev v x ys)"
  by (induction ys) (auto simp: set_ins_rev)

lemma filter_ins_rev:
  "filter (\<lambda>i. v ! i = k) (ins_rev v x ys)
     = (if v ! x = k then [x] else []) @ filter (\<lambda>i. v ! i = k) ys"
  by (induction ys) auto

lemma foldl_ins_rev:
  "length (foldl (\<lambda>a x. ins_rev v x a) [] xs) = length xs"
  "set (foldl (\<lambda>a x. ins_rev v x a) [] xs) = set xs"
  "sorted_wrt (\<lambda>a b. v ! b \<le> v ! a) (foldl (\<lambda>a x. ins_rev v x a) [] xs)"
  "filter (\<lambda>i. v ! i = k) (foldl (\<lambda>a x. ins_rev v x a) [] xs) = rev (filter (\<lambda>i. v ! i = k) xs)"
  by (induction xs rule: rev_induct)
    (simp_all add: length_ins_rev set_ins_rev descending_ins_rev filter_ins_rev)


lemma aquicksort_short_keeps_ties:
  assumes "length v \<le> 16"
  shows "keeps_ties aquicksort v"
  unfolding keeps_ties_def aquicksort_short [OF assms]
  by (simp add: rev_filter [symmetric] foldl_ins_rev(4))

text \<open>On 17 keys it partitions, and a tie can come out of input order.\<close>

lemma aquicksort_partitions_17:
  "aquicksort [1, 1, 1, 0, 1, 1, 1, 1, 0, 1, 1, 1, 1, 1, 1, 1, 1]
     = [8, 3, 14, 13, 12, 11, 10, 9, 0, 7, 6, 5, 4, 2, 1, 15, 16]"
  by code_simp






section \<open>The claims about the batch driver\<close>

lemma main_loop_append:
  "main_loop env argsort st (xs @ ys) =
     (case main_loop env argsort st xs of
        (st', None) \<Rightarrow> main_loop env argsort st' ys
      | (st', Some e) \<Rightarrow> (st', Some e))"
  by (induction xs arbitrary: st) (auto split: sum.splits)

lemma process_row_empty_unbound:
  assumes "get_bounding_box env (loc_latitude row) (loc_longitude row) 50000 = Inr b"
    and "get_date_range (loc_date row) 30 = Inr dr"
    and "catalog_search env b dr = Inr []"
    and "get_bounding_box env (loc_latitude row) (loc_longitude row) 500 = Inr fb"
    and "selected st = None"
  shows "process_row env argsort st row = Inl UnboundLocalError"
  using assms by (simp add: process_row_def ebind_def crop_selected_def)

lemma sample_bbox:
  "get_bounding_box (sample_env c) la lo m =
     Inr \<lparr>min_long = lo - m / 111000, min_lat = la - m / 111000,
          max_long = lo + m / 111000, max_lat = la + m / 111000\<rparr>"
  by (simp add: get_bounding_box_def sample_env_def sample_destination_def ebind_def)

lemma farm_date_range:
  "get_date_range (loc_date farm_0) 30 = Inr ''2022-08-01T/2022-08-31T''"
  "get_date_range (loc_date farm_1) 30 = Inr ''2022-08-01T/2022-08-31T''"
  by (simp_all add: farm_0_def farm_1_def sample_date_range)

lemma farm_paths:
  "image_array_pth (sample_env c) farm_0 = ''data/image_arrays/jawa_-7.675039_107.769191_0.jpg''"
  "image_array_pth (sample_env c) farm_1 = ''data/image_arrays/jawa_-7.786883_108.155444_1.jpg''"
  by (simp_all add: image_array_pth_def image_array_dir_def sample_env_def sample_float_str_def
      farm_0_def farm_1_def str_of_nat.simps digit_char_def)

lemma process_farm_0_empty:
  "process_row (sample_env catalog_empty) argsort initial_state farm_0 = Inl UnboundLocalError"
  by (rule process_row_empty_unbound [OF sample_bbox farm_date_range(1) _ sample_bbox])
    (simp_all add: sample_env_def catalog_empty_def initial_state_def)

lemma farm_coords:
  "loc_latitude farm_0 = farm_lat" "loc_longitude farm_0 = farm_long"
  "loc_date farm_0 = sample_date" "loc_date farm_1 = sample_date"
  by (simp_all add: farm_0_def farm_1_def farm_lat_def farm_long_def sample_date_def)

lemma farm_west_east: "loc_longitude farm_0 < 108" "108 \<le> loc_longitude farm_1"
  by (simp_all add: farm_0_def farm_1_def)

lemma search_first_only:
  "lo < 108 \<Longrightarrow> catalog_search (sample_env catalog_first_only)
     \<lparr>min_long = lo - m, min_lat = la, max_long = lo + m, max_lat = la'\<rparr> dr
     = Inr [scene_a, scene_b, scene_c]"
  "108 \<le> lo \<Longrightarrow> catalog_search (sample_env catalog_first_only)
     \<lparr>min_long = lo - m, min_lat = la, max_long = lo + m, max_lat = la'\<rparr> dr
     = Inr []"
  by (simp_all add: sample_env_def catalog_first_only_def)

lemma search_first_down:
  "lo < 108 \<Longrightarrow> catalog_search (sample_env catalog_first_down)
     \<lparr>min_long = lo - m, min_lat = la, max_long = lo + m, max_lat = la'\<rparr> dr
     = Inl (External ''catalog unreachable'')"
  "108 \<le> lo \<Longrightarrow> catalog_search (sample_env catalog_first_down)
     \<lparr>min_long = lo - m, min_lat = la, max_long = lo + m, max_lat = la'\<rparr> dr
     = Inr [scene_c]"
  by (simp_all add: sample_env_def catalog_first_down_def)

lemma sample_crops:
  "crop_selected (sample_env c) (Some (Selected it ''Sentinel-2A'' d)) fb = Inr ''visual''"
  "crop_selected (sample_env c) (Some (Selected it ''Sentinel-2B'' d)) fb = Inr ''visual''"
  "crop_selected (sample_env c) (Some (Selected it ''landsat-8'' d)) fb = Inr ''rgb''"
  "crop_selected (sample_env c) None fb = Inl UnboundLocalError"
  "crop_selected (sample_env c) (Some NoMatch) fb = Inl AttributeError"
  using sent_eval
  by (simp_all add: crop_selected_def crop_sentinel_image_def crop_landsat_image_def
      sample_env_def ebind_def is_sentinel_def)

lemma sample_write:
  "np_transpose (sample_env c) a = Inr a" "cv2_imwrite (sample_env c) p a = Inr True"
  by (simp_all add: sample_env_def)

lemma process_farm_0_first_only:
  "process_row (sample_env catalog_first_only) aquicksort initial_state farm_0 =
     Inr \<lparr>selected = Some (Selected scene_a ''Sentinel-2A'' ''2022-08-29''),
          written = [(''data/image_arrays/jawa_-7.675039_107.769191_0.jpg'', ''visual'')]\<rparr>"
proof -
  have sel: "select_best_item aquicksort [scene_a, scene_b, scene_c] (loc_date farm_0)
               (loc_latitude farm_0) (loc_longitude farm_0)
             = Inr (Selected scene_a ''Sentinel-2A'' ''2022-08-29'')"
    by (simp add: farm_coords sel_abc)
  show ?thesis
    unfolding process_row_def sample_bbox farm_date_range
    by (simp add: ebind_def search_first_only farm_west_east sel sample_crops sample_write
        farm_paths initial_state_def)
qed

lemma process_farm_1_stale:
  "process_row (sample_env catalog_first_only) aquicksort
     \<lparr>selected = Some (Selected scene_a ''Sentinel-2A'' ''2022-08-29''),
      written = [(''data/image_arrays/jawa_-7.675039_107.769191_0.jpg'', ''visual'')]\<rparr> farm_1 =
     Inr \<lparr>selected = Some (Selected scene_a ''Sentinel-2A'' ''2022-08-29''),
          written = [(''data/image_arrays/jawa_-7.675039_107.769191_0.jpg'', ''visual''),
                     (''data/image_arrays/jawa_-7.786883_108.155444_1.jpg'', ''visual'')]\<rparr>"
  unfolding process_row_def sample_bbox farm_date_range
  by (simp add: ebind_def search_first_only farm_west_east sample_crops sample_write farm_paths)

lemma sel_c:
  "select_best_item aquicksort [scene_c] (loc_date farm_1)
               (loc_latitude farm_1) (loc_longitude farm_1)
             = Inr (Selected scene_c ''Sentinel-2B'' ''2022-08-26'')"
proof -
  have c: "contains_sample_point (loc_latitude farm_1) (loc_longitude farm_1) (item_row scene_c)"
    by (simp add: contains_item_row scene_defs farm_1_def)
  have rows: "containing_rows [scene_c] (loc_latitude farm_1) (loc_longitude farm_1)
                = [item_row scene_c]"
    by (simp add: containing_rows_def c)
  have ok: "dates_ok sample_date [item_row scene_c]"
    by (simp add: dates_ok_def item_row_simps scene_dates_ok) (simp add: scene_defs ord_eval)
  have td: "time_diff_column (loc_date farm_1) [item_row scene_c] = Inr [5]"
    using ok by (simp add: farm_coords time_diff_column_Inr item_row_simps)
      (simp add: scene_defs ord_eval)
  have iso: "strftime ''%Y-%m-%d'' d = isoformat d" for d
    by (simp add: isoformat_def directive_def)
  have i: "isoformat (dt_date (item_datetime scene_c)) = ''2022-08-26''"
    by (simp add: scene_c_def fmt_eval)
  have p: "platform scene_c = ''Sentinel-2B''" by (simp add: scene_c_def)
  show ?thesis
    by (simp add: select_best_item_def Let_def rows td ebind_def prefer_sentinel_def
        item_row_simps sort_values_def aquicksort_small iso i p del: strftime.simps)
qed

lemma process_farm_1_first_down:
  "process_row (sample_env catalog_first_down) aquicksort initial_state farm_1 =
     Inr \<lparr>selected = Some (Selected scene_c ''Sentinel-2B'' ''2022-08-26''),
          written = [(''data/image_arrays/jawa_-7.786883_108.155444_1.jpg'', ''visual'')]\<rparr>"
  unfolding process_row_def sample_bbox farm_date_range
  by (simp add: ebind_def search_first_down farm_west_east sel_c sample_crops sample_write
      farm_paths initial_state_def)

lemma process_farm_0_first_down:
  "process_row (sample_env catalog_first_down) argsort st farm_0 =
     Inl (External ''catalog unreachable'')"
  unfolding process_row_def sample_bbox farm_date_range
  by (simp add: ebind_def search_first_down farm_west_east)

lemma d_metadata_rows: "\<exists>rest. d_metadata = farm_0 # farm_1 # rest"
  by (simp add: d_metadata_def farm_location_def farm_0_def farm_1_def upt_rec)

text \<open>
  Claim C2 says that a location whose catalog search returns zero items is skipped: no
  output file, no error, later locations unaffected. The branch for zero items is
  \<^verbatim>\<open>pass\<close>, and the pass of the loop goes on to the cropping step, which reads
  \<^verbatim>\<open>item_platform\<close> and \<^verbatim>\<open>best_item\<close>. With a catalog that finds nothing, the first
  configured location ends the run with UnboundLocalError. With a catalog that finds
  scenes for the first location and nothing for the second, the second location gets
  an output file, cropped from the scene selected for the first.
\<close>

theorem empty_search_is_not_skipped:
  "main (sample_env catalog_empty) aquicksort = (initial_state, Some UnboundLocalError)
   \<and> ebind (get_bounding_box (sample_env catalog_first_only)
               (loc_latitude farm_1) (loc_longitude farm_1) 50000)
        (\<lambda>search_bbox. catalog_search (sample_env catalog_first_only) search_bbox
                          ''2022-08-01T/2022-08-31T'') = Inr []
   \<and> main_loop (sample_env catalog_first_only) aquicksort initial_state [farm_0, farm_1] =
       (\<lparr>selected = Some (Selected scene_a ''Sentinel-2A'' ''2022-08-29''),
         written = [(''data/image_arrays/jawa_-7.675039_107.769191_0.jpg'', ''visual''),
                    (''data/image_arrays/jawa_-7.786883_108.155444_1.jpg'', ''visual'')]\<rparr>, None)"
proof -
  obtain rest where r: "d_metadata = farm_0 # farm_1 # rest"
    using d_metadata_rows by blast
  have a: "main (sample_env catalog_empty) aquicksort = (initial_state, Some UnboundLocalError)"
  proof -
    have "makedirs (sample_env catalog_empty) image_array_dir = None"
      "client_open (sample_env catalog_empty) = None"
      by (simp_all add: sample_env_def)
    then show ?thesis by (simp add: main_def r process_farm_0_empty)
  qed
  have b: "ebind (get_bounding_box (sample_env catalog_first_only)
               (loc_latitude farm_1) (loc_longitude farm_1) 50000)
        (\<lambda>search_bbox. catalog_search (sample_env catalog_first_only) search_bbox
                          ''2022-08-01T/2022-08-31T'') = Inr []"
    unfolding sample_bbox by (simp add: ebind_def search_first_only farm_west_east)
  have c: "main_loop (sample_env catalog_first_only) aquicksort initial_state [farm_0, farm_1] =
       (\<lparr>selected = Some (Selected scene_a ''Sentinel-2A'' ''2022-08-29''),
         written = [(''data/image_arrays/jawa_-7.675039_107.769191_0.jpg'', ''visual''),
                    (''data/image_arrays/jawa_-7.786883_108.155444_1.jpg'', ''visual'')]\<rparr>, None)"
    by (simp add: process_farm_0_first_only process_farm_1_stale)
  from a b c show ?thesis by blast
qed

text \<open>
  Claim C9, as the specification states it: an error raised while processing one
  location is isolated to that location, and the driver goes on with the remaining
  locations. The loop has no exception handler. With a catalog that is unreachable for
  the first location, the second location alone is processed and its file written; in
  the run over both, the first location's error ends the run and nothing is written.
\<close>

theorem error_not_isolated_counterexample:
  "main_loop (sample_env catalog_first_down) aquicksort initial_state [farm_1] =
       (\<lparr>selected = Some (Selected scene_c ''Sentinel-2B'' ''2022-08-26''),
         written = [(''data/image_arrays/jawa_-7.786883_108.155444_1.jpg'', ''visual'')]\<rparr>, None)
   \<and> main_loop (sample_env catalog_first_down) aquicksort initial_state [farm_0, farm_1] =
       (initial_state, Some (External ''catalog unreachable''))"
  by (simp add: process_farm_1_first_down process_farm_0_first_down)

text \<open>
  Claim C9, amended: an error raised while processing one location (bounding box, date
  range, catalog search, selection, cropping, transposition or file write) is not
  isolated. It ends the run at that location: the remaining locations are not
  processed, the error leaves the driver, and the files written for the earlier
  locations are what the run leaves.
\<close>

theorem error_ends_the_run:
  assumes "main_loop env argsort st earlier = (st', None)"
    and "process_row env argsort st' row = Inl e"
  shows "main_loop env argsort st (earlier @ row # later) = (st', Some e)"
  using assms by (simp add: main_loop_append)

text \<open>
  Witness for C9: the second location is processed, then the first location's search
  fails, and the location after it is not processed.
\<close>

theorem error_ends_the_run_witness:
  "main_loop (sample_env catalog_first_down) aquicksort initial_state [farm_1] =
       (\<lparr>selected = Some (Selected scene_c ''Sentinel-2B'' ''2022-08-26''),
         written = [(''data/image_arrays/jawa_-7.786883_108.155444_1.jpg'', ''visual'')]\<rparr>, None)
   \<and> process_row (sample_env catalog_first_down) aquicksort
        \<lparr>selected = Some (Selected scene_c ''Sentinel-2B'' ''2022-08-26''),
         written = [(''data/image_arrays/jawa_-7.786883_108.155444_1.jpg'', ''visual'')]\<rparr> farm_0
       = Inl (External ''catalog unreachable'')
   \<and> main_loop (sample_env catalog_first_down) aquicksort initial_state
         ([farm_1] @ farm_0 # [farm_1]) =
       (\<lparr>selected = Some (Selected scene_c ''Sentinel-2B'' ''2022-08-26''),
         written = [(''data/image_arrays/jawa_-7.786883_108.155444_1.jpg'', ''visual'')]\<rparr>,
        Some (External ''catalog unreachable''))"
proof -
  have a: "main_loop (sample_env catalog_first_down) aquicksort initial_state [farm_1] =
       (\<lparr>selected = Some (Selected scene_c ''Sentinel-2B'' ''2022-08-26''),
         written = [(''data/image_arrays/jawa_-7.786883_108.155444_1.jpg'', ''visual'')]\<rparr>, None)"
    by (simp add: process_farm_1_first_down)
  have b: "process_row (sample_env catalog_first_down) aquicksort
        \<lparr>selected = Some (Selected scene_c ''Sentinel-2B'' ''2022-08-26''),
         written = [(''data/image_arrays/jawa_-7.786883_108.155444_1.jpg'', ''visual'')]\<rparr> farm_0
       = Inl (External ''catalog unreachable'')"
    by (rule process_farm_0_first_down)
  from error_ends_the_run [OF a b, of "[farm_1]"] a b show ?thesis by blast
qed

section \<open>The claim about the Landsat cropper\<close>

lemma pixels_map: "pixels (map (map (map f)) a) = map f (pixels a)"
  by (simp add: pixels_def map_concat)

lemma pixels_norm_minmax:
  "pixels (norm_minmax alpha beta a)
     = map (rescale alpha beta (Min (set (pixels a))) (Max (set (pixels a)))) (pixels a)"
  by (simp add: norm_minmax_def Let_def pixels_map)

lemma rescale_range:
  assumes "lo < hi" "lo \<le> x" "x \<le> hi"
  shows "0 \<le> rescale 0 255 lo hi x \<and> rescale 0 255 lo hi x \<le> 255"
proof -
  have "(x - lo) * 255 \<le> 255 * (hi - lo)" using assms by simp
  then have "(x - lo) * 255 / (hi - lo) \<le> 255"
    using assms(1) by (simp add: pos_divide_le_eq)
  moreover have "0 \<le> (x - lo) * 255 / (hi - lo)" using assms by simp
  ultimately show ?thesis by (simp add: rescale_def)
qed

lemma rescale_ends:
  assumes "lo < hi"
  shows "rescale 0 255 lo hi lo = 0" "rescale 0 255 lo hi hi = 255"
  using assms by (simp_all add: rescale_def divide_simps)

text \<open>
  Claim C8: when the array that the Landsat cropper loads is not constant, every pixel
  value of the array it returns lies between 0 and 255, and both ends are taken. Here
  \<^verbatim>\<open>cv2.normalize\<close> is the min-max rescaling to 0 and 255 modelled from the
  specification.
\<close>

theorem landsat_pixels_in_range:
  assumes "cv2_normalize env = (\<lambda>a. Inr (norm_minmax 0 255 a))"
    and "stac_load_rgb env it bounding_box = Inr a"
    and "\<exists>x \<in> set (pixels a). \<exists>y \<in> set (pixels a). x \<noteq> y"
  shows "\<exists>out. crop_landsat_image env it bounding_box = Inr out
           \<and> (\<forall>v \<in> set (pixels out). 0 \<le> v \<and> v \<le> 255)
           \<and> 0 \<in> set (pixels out) \<and> 255 \<in> set (pixels out)"
proof -
  let ?S = "set (pixels a)"
  let ?out = "norm_minmax 0 255 a"
  have fin: "finite ?S" and ne: "?S \<noteq> {}" using assms(3) by auto
  have lo: "Min ?S \<in> ?S" and hi: "Max ?S \<in> ?S" using fin ne by simp_all
  have bounds: "Min ?S \<le> x \<and> x \<le> Max ?S" if "x \<in> ?S" for x using that fin by simp
  have lt: "Min ?S < Max ?S"
  proof -
    from assms(3) obtain x y where xy: "x \<in> ?S" "y \<in> ?S" "x \<noteq> y" by blast
    then have "x < y \<or> y < x" by auto
    then show ?thesis using bounds [OF xy(1)] bounds [OF xy(2)] by auto
  qed
  have crop: "crop_landsat_image env it bounding_box = Inr ?out"
    by (simp add: crop_landsat_image_def assms(1,2) ebind_def)
  have range: "0 \<le> v \<and> v \<le> 255" if "v \<in> set (pixels ?out)" for v
  proof -
    from that obtain x where "x \<in> ?S" "v = rescale 0 255 (Min ?S) (Max ?S) x"
      by (auto simp: pixels_norm_minmax)
    then show ?thesis using rescale_range [OF lt] bounds by blast
  qed
  have z: "0 \<in> set (pixels ?out)"
    using lo rescale_ends(1) [OF lt] by (force simp: pixels_norm_minmax)
  have m: "255 \<in> set (pixels ?out)"
    using hi rescale_ends(2) [OF lt] by (force simp: pixels_norm_minmax)
  from crop range z m show ?thesis by blast
qed

lemma sample_pixels: "pixels sample_rgb = [7000, 9550, 8020, 12100, 7510, 10060]"
  by (simp add: pixels_def sample_rgb_def)

lemma sample_crop:
  "crop_landsat_image landsat_env scene_b box_around
     = Inr [[[0, 255 / 2]], [[51, 255]], [[51 / 2, 153]]]"
  by (simp add: crop_landsat_image_def landsat_env_def ebind_def norm_minmax_def Let_def
      sample_pixels rescale_def, simp add: sample_rgb_def rescale_def)

text \<open>
  Witness for C8: three bands of one row of two pixels, with values from 7000 to 12100.
\<close>

theorem landsat_pixels_in_range_witness:
  "cv2_normalize landsat_env = (\<lambda>a. Inr (norm_minmax 0 255 a))
   \<and> stac_load_rgb landsat_env scene_b box_around = Inr sample_rgb
   \<and> pixels sample_rgb = [7000, 9550, 8020, 12100, 7510, 10060]
   \<and> crop_landsat_image landsat_env scene_b box_around
       = Inr [[[0, 255 / 2]], [[51, 255]], [[51 / 2, 153]]]
   \<and> pixels [[[0, 255 / 2]], [[51, 255]], [[51 / 2, 153 :: real]]] = [0, 255 / 2, 51, 255, 51 / 2, 153]"
proof -
  have n: "cv2_normalize landsat_env = (\<lambda>a. Inr (norm_minmax 0 255 a))"
    and l: "stac_load_rgb landsat_env scene_b box_around = Inr sample_rgb"
    by (simp_all add: landsat_env_def)
  have d: "\<exists>x \<in> set (pixels sample_rgb). \<exists>y \<in> set (pixels sample_rgb). x \<noteq> y"
    by (rule bexI [of _ 7000], rule bexI [of _ 9550]) (simp_all add: sample_pixels)
  from landsat_pixels_in_range [OF n l d]
  obtain out where out: "crop_landsat_image landsat_env scene_b box_around = Inr out"
    "0 \<in> set (pixels out)" "255 \<in> set (pixels out)" by blast
  have px: "pixels [[[0, 255 / 2]], [[51, 255]], [[51 / 2, 153 :: real]]]
              = [0, 255 / 2, 51, 255, 51 / 2, 153]"
    by (simp add: pixels_def)
  from out(1) sample_crop have "out = [[[0, 255 / 2]], [[51, 255]], [[51 / 2, 153]]]" by simp
  with out n l sample_pixels px show ?thesis by simp
qed

end
